theory Spec2Isabelle
  imports Main "HOL-Library.AList" "HOL-Library.Multiset"
begin

section \<open>URIs and the resource list of a Group\<close>

text \<open>
  A \<^verbatim>\<open>vscode.Uri\<close> is an immutable object. The code reads two things of it:
  \<^verbatim>\<open>fsPath\<close> (the normalised filesystem path) and \<^verbatim>\<open>toString()\<close> (the full
  string form). \<^verbatim>\<open>Array.prototype.indexOf\<close> compares objects with \<^verbatim>\<open>===\<close>,
  that is by identity; \<open>objId\<close> is that identity, so two records are equal exactly
  when they stand for the same object.
\<close>

record Uri =
  objId :: nat
  fsPath :: string
  uriString :: string

text \<open>
  The part of a Group that lives in the object itself. Child groups and the parent are
  references (addresses in the store of Group objects, see below). The field
  \<open>resourceNeg1\<close> is the own property \<^verbatim>\<open>"-1"\<close> of the array \<^verbatim>\<open>_resource\<close>:
  \<^verbatim>\<open>replaceResource\<close> writes \<^verbatim>\<open>this._resource[i]\<close> with \<^verbatim>\<open>i = -1\<close> when
  \<^verbatim>\<open>indexOf\<close> fails, which in JavaScript stores a property under the key \<^verbatim>\<open>"-1"\<close>
  and leaves the length and the elements of the array as they are.
\<close>

type_synonym ref = nat

record Group =
  gid :: string
  name :: string
  readonly :: bool
  resources :: "Uri list"
  resourceNeg1 :: "Uri option"
  childGroups :: "ref list"
  parentGroup :: "ref option"

text \<open>\<^verbatim>\<open>new Group(id)\<close>: the field initialisers of the class.\<close>

definition newGroup :: "string \<Rightarrow> Group" where
  "newGroup i = \<lparr>gid = i, name = [], readonly = False, resources = [],
     resourceNeg1 = None, childGroups = [], parentGroup = None\<rparr>"

text \<open>\<^verbatim>\<open>Array.prototype.findIndex\<close>: the first index whose element satisfies the
  predicate; \<open>None\<close> stands for the result \<^verbatim>\<open>-1\<close>.\<close>

fun findIndex :: "('a \<Rightarrow> bool) \<Rightarrow> 'a list \<Rightarrow> nat option" where
  "findIndex P [] = None"
| "findIndex P (x # xs) = (if P x then Some 0 else map_option Suc (findIndex P xs))"

text \<open>\<^verbatim>\<open>Array.prototype.indexOf\<close> on objects: the first index holding the same object.\<close>

definition indexOf :: "'a \<Rightarrow> 'a list \<Rightarrow> nat option" where
  "indexOf x xs = findIndex (\<lambda>y. y = x) xs"

text \<open>\<^verbatim>\<open>xs.splice(i, 1)\<close> for an index inside the array.\<close>

definition splice1 :: "nat \<Rightarrow> 'a list \<Rightarrow> 'a list" where
  "splice1 i xs = take i xs @ drop (Suc i) xs"

text \<open>\<^verbatim>\<open>_resourceContains\<close>: \<^verbatim>\<open>some((value) => value.fsPath === uri.fsPath)\<close>.\<close>

definition resourceContains :: "Group \<Rightarrow> Uri \<Rightarrow> bool" where
  "resourceContains g uri = list_ex (\<lambda>v. fsPath v = fsPath uri) (resources g)"

definition addResource :: "Group \<Rightarrow> Uri \<Rightarrow> Group" where
  "addResource g uri =
     (if resourceContains g uri then g
      else g\<lparr>resources := resources g @ [uri]\<rparr>)"

definition removeResource :: "Group \<Rightarrow> Uri \<Rightarrow> Group" where
  "removeResource g uri =
     (case findIndex (\<lambda>item. uriString item = uriString uri) (resources g) of
        None \<Rightarrow> g
      | Some i \<Rightarrow> g\<lparr>resources := splice1 i (resources g)\<rparr>)"

definition replaceResource :: "Group \<Rightarrow> Uri \<Rightarrow> Uri \<Rightarrow> Group" where
  "replaceResource g from to =
     (case indexOf from (resources g) of
        None \<Rightarrow> g\<lparr>resourceNeg1 := Some to\<rparr>
      | Some i \<Rightarrow> g\<lparr>resources := (resources g)[i := to]\<rparr>)"

definition clearResources :: "Group \<Rightarrow> Group" where
  "clearResources g = g\<lparr>resources := [], resourceNeg1 := None\<rparr>"

section \<open>The store of Group objects and the tree operations\<close>

text \<open>
  Group objects are shared: a parent lists its children and every child points back to
  its parent, and the maps of the manager hold the same objects. The store is the list
  of all Group objects ever allocated; a reference is an index into it, \<open>h ! r\<close> reads
  the object and \<^verbatim>\<open>new Group(...)\<close> appends one. Each method of \<^verbatim>\<open>Group\<close> takes
  the store and the receiver \<open>this\<close> and returns the store after the call.
\<close>

type_synonym heap = "Group list"

text \<open>\<^verbatim>\<open>_childGroupContains\<close>: \<^verbatim>\<open>some((value) => value.id === group.id)\<close>.\<close>

definition childGroupContains :: "heap \<Rightarrow> ref \<Rightarrow> ref \<Rightarrow> bool" where
  "childGroupContains h this grp =
     list_ex (\<lambda>v. gid (h ! v) = gid (h ! grp)) (childGroups (h ! this))"

text \<open>\<^verbatim>\<open>removeChildGroup\<close>: the index is found by id; the parent reference that is
  cleared is the one of the argument.\<close>

definition removeChildGroup :: "heap \<Rightarrow> ref \<Rightarrow> ref \<Rightarrow> heap" where
  "removeChildGroup h this childGroup =
     (case findIndex (\<lambda>item. gid (h ! item) = gid (h ! childGroup)) (childGroups (h ! this)) of
        None \<Rightarrow> h
      | Some i \<Rightarrow>
          let h1 = h[this := (h ! this)\<lparr>childGroups := splice1 i (childGroups (h ! this))\<rparr>]
          in h1[childGroup := (h1 ! childGroup)\<lparr>parentGroup := None\<rparr>])"

text \<open>\<^verbatim>\<open>removeChildGroupById\<close>: here the parent reference cleared is the one of the
  child found at the index.\<close>

definition removeChildGroupById :: "heap \<Rightarrow> ref \<Rightarrow> string \<Rightarrow> heap" where
  "removeChildGroupById h this childGroupId =
     (case findIndex (\<lambda>item. gid (h ! item) = childGroupId) (childGroups (h ! this)) of
        None \<Rightarrow> h
      | Some i \<Rightarrow>
          let childGroup = childGroups (h ! this) ! i;
              h1 = h[this := (h ! this)\<lparr>childGroups := splice1 i (childGroups (h ! this))\<rparr>]
          in h1[childGroup := (h1 ! childGroup)\<lparr>parentGroup := None\<rparr>])"

text \<open>\<^verbatim>\<open>addChildGroup\<close>: refused when a child with the same id is there; otherwise the
  child is detached from its current parent, pushed, and its parent reference set.
  There is no other check.\<close>

definition addChildGroup :: "heap \<Rightarrow> ref \<Rightarrow> ref \<Rightarrow> heap" where
  "addChildGroup h this childGroup =
     (if childGroupContains h this childGroup then h
      else
        let h1 = (case parentGroup (h ! childGroup) of
                    Some p \<Rightarrow> removeChildGroup h p childGroup
                  | None \<Rightarrow> h);
            h2 = h1[this := (h1 ! this)\<lparr>childGroups := childGroups (h1 ! this) @ [childGroup]\<rparr>]
        in h2[childGroup := (h2 ! childGroup)\<lparr>parentGroup := Some this\<rparr>])"

definition clearChildGroups :: "heap \<Rightarrow> ref \<Rightarrow> heap" where
  "clearChildGroups h this =
     (let h1 = fold (\<lambda>childGroup h'. h'[childGroup := (h' ! childGroup)\<lparr>parentGroup := None\<rparr>])
                 (childGroups (h ! this)) h
      in h1[this := (h1 ! this)\<lparr>childGroups := []\<rparr>])"

text \<open>
  \<^verbatim>\<open>getAllChildGroups\<close> recurses through the child lists and does not return when a
  group is reachable from itself. The first argument bounds the depth of the recursion
  (the call stack); \<open>None\<close> is the call that does not return within it.
  \<open>collect\<close> is the loop \<^verbatim>\<open>for (const childGroup of this._childGroups)\<close> with its two
  pushes.
\<close>

fun collect :: "(ref \<Rightarrow> ref list option) \<Rightarrow> ref list \<Rightarrow> ref list option" where
  "collect f [] = Some []"
| "collect f (c # cs) =
     (case f c of
        None \<Rightarrow> None
      | Some ds \<Rightarrow> (case collect f cs of None \<Rightarrow> None | Some rest \<Rightarrow> Some (c # ds @ rest)))"

fun getAllChildGroups :: "nat \<Rightarrow> heap \<Rightarrow> ref \<Rightarrow> ref list option" where
  "getAllChildGroups 0 h this = None"
| "getAllChildGroups (Suc n) h this =
     collect (\<lambda>childGroup. getAllChildGroups n h childGroup) (childGroups (h ! this))"

text \<open>The operations of the claim about cycles, as data, and a run of them.\<close>

datatype treeOp =
  AddChildGroup ref ref
  | RemoveChildGroup ref ref
  | RemoveChildGroupById ref string
  | ClearChildGroups ref

fun applyOp :: "heap \<Rightarrow> treeOp \<Rightarrow> heap" where
  "applyOp h (AddChildGroup this c) = addChildGroup h this c"
| "applyOp h (RemoveChildGroup this c) = removeChildGroup h this c"
| "applyOp h (RemoveChildGroupById this i) = removeChildGroupById h this i"
| "applyOp h (ClearChildGroups this) = clearChildGroups h this"

definition applyOps :: "heap \<Rightarrow> treeOp list \<Rightarrow> heap" where
  "applyOps h ops = fold (\<lambda>op h'. applyOp h' op) ops h"

text \<open>Two states of a Group object that differ at most in the links to other
  groups (the child list and the parent).\<close>

definition sameData :: "Group \<Rightarrow> Group \<Rightarrow> bool" where
  "sameData g g' \<longleftrightarrow> gid g' = gid g \<and> name g' = name g \<and> readonly g' = readonly g \<and>
     resources g' = resources g \<and> resourceNeg1 g' = resourceNeg1 g"

section \<open>GroupManager\<close>

text \<open>
  \<^verbatim>\<open>FileFocusStorageProvider\<close> is an interface (declared in \<^verbatim>\<open>global.ts\<close>, not
  among the sources); the manager only calls it. A provider is its \<open>pid\<close> and what its
  \<^verbatim>\<open>loadRootNodes()\<close> answers: the root groups it builds, as new objects of the
  store. The calls \<^verbatim>\<open>saveGroup\<close>, \<^verbatim>\<open>deleteGroupId\<close> and \<^verbatim>\<open>reset\<close> that the
  manager issues are recorded, in order, in \<open>calls\<close>, each with the id of the provider
  that receives it.
\<close>

record provider =
  pid :: string
  providerLoadRootNodes :: "heap \<Rightarrow> ref list \<times> heap"

datatype providerCall =
  SaveGroup string ref
  | DeleteGroupId string string
  | Reset string

text \<open>
  The fields of \<^verbatim>\<open>GroupManager\<close>. A JavaScript \<^verbatim>\<open>Map\<close> is the list of its entries in
  insertion order: \<^verbatim>\<open>get\<close> is \<open>map_of\<close>, \<^verbatim>\<open>set\<close> is \<open>AList.update\<close>, \<^verbatim>\<open>delete\<close>
  is \<open>AList.delete\<close>, \<^verbatim>\<open>clear\<close> is \<open>[]\<close> and \<^verbatim>\<open>size\<close> is \<open>length\<close>.
\<close>

record GroupManager =
  heap :: heap
  root :: "(string \<times> ref) list"
  rootGroups :: "(string \<times> ref) list"
  storageMap :: "(string \<times> string) list"
  pinnedGroupId :: string
  storageProvider :: "(string \<times> provider) list"
  calls :: "providerCall list"

definition addStorageProvider :: "GroupManager \<Rightarrow> provider \<Rightarrow> GroupManager" where
  "addStorageProvider st p = st\<lparr>storageProvider := AList.update (pid p) p (storageProvider st)\<rparr>"

text \<open>\<^verbatim>\<open>this._storageProvider.get(this.storageMap.get(id) ?? "")\<close>.\<close>

definition providerOf :: "GroupManager \<Rightarrow> string \<Rightarrow> provider option" where
  "providerOf st i =
     map_of (storageProvider st) (case map_of (storageMap st) i of None \<Rightarrow> [] | Some s \<Rightarrow> s)"

definition saveGroup :: "GroupManager \<Rightarrow> ref \<Rightarrow> GroupManager" where
  "saveGroup st grp =
     (case providerOf st (gid (heap st ! grp)) of
        None \<Rightarrow> st
      | Some p \<Rightarrow> st\<lparr>calls := calls st @ [SaveGroup (pid p) grp]\<rparr>)"

text \<open>The test \<^verbatim>\<open>if (s)\<close> on a value of type \<^verbatim>\<open>string | null | undefined\<close>: absent
  values and the empty string are false.\<close>

fun truthy :: "string option \<Rightarrow> string option" where
  "truthy None = None"
| "truthy (Some s) = (if s = [] then None else Some s)"

definition addGroup :: "GroupManager \<Rightarrow> ref \<Rightarrow> string \<Rightarrow> string option \<Rightarrow> GroupManager" where
  "addGroup st grp storageProviderId parentGroupId =
     (let i = gid (heap st ! grp);
          st1 = (case truthy parentGroupId of
                   Some p \<Rightarrow>
                     (case map_of (root st) p of
                        Some parent \<Rightarrow> st\<lparr>heap := addChildGroup (heap st) parent grp\<rparr>
                      | None \<Rightarrow> st)
                 | None \<Rightarrow> st\<lparr>rootGroups := AList.update i grp (rootGroups st)\<rparr>);
          st2 = st1\<lparr>root := AList.update i grp (root st1)\<rparr>;
          st3 = st2\<lparr>storageMap := AList.update i storageProviderId (storageMap st2)\<rparr>
      in saveGroup st3 grp)"

text \<open>\<^verbatim>\<open>removeGroup\<close>; the first argument is the depth allowed to
  \<^verbatim>\<open>getAllChildGroups\<close>, and \<open>None\<close> is the call that does not return.\<close>

definition removeGroup :: "nat \<Rightarrow> GroupManager \<Rightarrow> string \<Rightarrow> GroupManager option" where
  "removeGroup fuel st i =
     (case map_of (root st) i of
        None \<Rightarrow> Some st
      | Some grp \<Rightarrow>
          let provider = providerOf st i;
              st1 = (case parentGroup (heap st ! grp) of
                       Some p \<Rightarrow> st\<lparr>heap := removeChildGroup (heap st) p grp\<rparr>
                     | None \<Rightarrow> st\<lparr>rootGroups := AList.delete i (rootGroups st)\<rparr>)
          in (case getAllChildGroups fuel (heap st1) grp of
                None \<Rightarrow> None
              | Some allChildGroups \<Rightarrow>
                  let st2 = fold (\<lambda>childGroup s.
                          let c = gid (heap s ! childGroup);
                              s1 = s\<lparr>root := AList.delete c (root s),
                                     storageMap := AList.delete c (storageMap s)\<rparr>
                          in (case provider of
                                Some p \<Rightarrow> s1\<lparr>calls := calls s1 @ [DeleteGroupId (pid p) c]\<rparr>
                              | None \<Rightarrow> s1))
                        allChildGroups st1;
                      st3 = st2\<lparr>root := AList.delete i (root st2),
                                storageMap := AList.delete i (storageMap st2)\<rparr>
                  in Some (case provider of
                             Some p \<Rightarrow> st3\<lparr>calls := calls st3 @ [DeleteGroupId (pid p) i]\<rparr>
                           | None \<Rightarrow> st3)))"

text \<open>
  \<^verbatim>\<open>renameGroup\<close>. \<^verbatim>\<open>GroupManager.makeGroupId\<close> is \<^verbatim>\<open>uuidv5(name, namespace)\<close> of the
  package \<^verbatim>\<open>uuid\<close>: the parameter \<open>makeGroupId\<close>. The new Group is allocated at the end
  of the store. A \<^verbatim>\<open>Uri\<close> object is never false, so the test \<^verbatim>\<open>if (uri)\<close> is dropped.
\<close>

definition renameGroup ::
  "(string \<Rightarrow> string) \<Rightarrow> GroupManager \<Rightarrow> string \<Rightarrow> string \<Rightarrow> GroupManager" where
  "renameGroup makeGroupId st i newName =
     (case providerOf st i of
        None \<Rightarrow> st
      | Some provider \<Rightarrow>
     (case map_of (root st) i of
        None \<Rightarrow> st
      | Some src \<Rightarrow>
          let newGroupId = makeGroupId newName;
              dst = length (heap st);
              h0 = heap st @ [(newGroup newGroupId)\<lparr>name := newName,
                      readonly := readonly (heap st ! src)\<rparr>];
              h1 = fold (\<lambda>uri h. h[dst := addResource (h ! dst) uri]) (resources (h0 ! src)) h0;
              h2 = fold (\<lambda>childGroup h. addChildGroup h dst childGroup) (childGroups (h1 ! src)) h1;
              parent = parentGroup (h2 ! src);
              st1 = st\<lparr>heap := h2, root := AList.delete i (root st),
                       storageMap := AList.delete i (storageMap st)\<rparr>;
              st2 = (if parentGroup (heap st1 ! src) = None
                     then st1\<lparr>rootGroups := AList.delete i (rootGroups st1)\<rparr> else st1);
              st3 = (case parent of
                       Some p \<Rightarrow> st2\<lparr>heap := removeChildGroup (heap st2) p src\<rparr>
                     | None \<Rightarrow> st2);
              st4 = st3\<lparr>root := AList.update newGroupId dst (root st3),
                        storageMap := AList.update newGroupId (pid provider) (storageMap st3)\<rparr>;
              st5 = (case parent of
                       Some p \<Rightarrow> st4\<lparr>heap := addChildGroup (heap st4) p dst\<rparr>
                     | None \<Rightarrow> st4\<lparr>rootGroups := AList.update newGroupId dst (rootGroups st4)\<rparr>);
              st6 = st5\<lparr>calls := calls st5 @ [DeleteGroupId (pid provider) i]\<rparr>
          in saveGroup st6 dst))"

text \<open>The first half of \<open>renameGroup\<close>: the store after the new Group has been built
  and the children have been moved onto it.\<close>

definition renamedHeap :: "heap \<Rightarrow> ref \<Rightarrow> string \<Rightarrow> string \<Rightarrow> heap" where
  "renamedHeap h src newGroupId newName =
     (let dst = length h;
          h0 = h @ [(newGroup newGroupId)\<lparr>name := newName, readonly := readonly (h ! src)\<rparr>];
          h1 = fold (\<lambda>uri h'. h'[dst := addResource (h' ! dst) uri]) (resources (h0 ! src)) h0
      in fold (\<lambda>childGroup h'. addChildGroup h' dst childGroup) (childGroups (h1 ! src)) h1)"

text \<open>\<^verbatim>\<open>moveGroup\<close> returns its boolean result together with the state.\<close>

definition moveGroup ::
  "GroupManager \<Rightarrow> string \<Rightarrow> string option \<Rightarrow> bool \<times> GroupManager" where
  "moveGroup st groupId newParentId =
     (case map_of (root st) groupId of
        None \<Rightarrow> (False, st)
      | Some grp \<Rightarrow>
          let st1 = (case parentGroup (heap st ! grp) of
                       Some p \<Rightarrow> st\<lparr>heap := removeChildGroup (heap st) p grp\<rparr>
                     | None \<Rightarrow> st\<lparr>rootGroups := AList.delete groupId (rootGroups st)\<rparr>)
          in (case truthy newParentId of
                Some np \<Rightarrow>
                  (case map_of (root st1) np of
                     None \<Rightarrow> (False, st1)
                   | Some newParent \<Rightarrow>
                       let st2 = st1\<lparr>heap := addChildGroup (heap st1) newParent grp\<rparr>;
                           st3 = saveGroup st2 grp
                       in (True, (case map_of (root st3) np of
                                    Some newParent' \<Rightarrow> saveGroup st3 newParent'
                                  | None \<Rightarrow> st3)))
              | None \<Rightarrow>
                  let st2 = st1\<lparr>rootGroups := AList.update groupId grp (rootGroups st1)\<rparr>;
                      st3 = st2\<lparr>heap := (heap st2)[grp :=
                               (heap st2 ! grp)\<lparr>parentGroup := None\<rparr>]\<rparr>
                  in (True, saveGroup st3 grp)))"

definition findGroup :: "GroupManager \<Rightarrow> string \<Rightarrow> ref option" where
  "findGroup st groupId = map_of (root st) groupId"

text \<open>
  \<^verbatim>\<open>addGroupToMemory\<close> recurses through the child lists; as for
  \<^verbatim>\<open>getAllChildGroups\<close> the first argument bounds the depth and \<open>None\<close> is the call
  that does not return. \<open>forEach\<close> runs a loop whose body may not return.
\<close>

fun forEach :: "('a \<Rightarrow> 's \<Rightarrow> 's option) \<Rightarrow> 'a list \<Rightarrow> 's \<Rightarrow> 's option" where
  "forEach body [] s = Some s"
| "forEach body (x # xs) s = (case body x s of None \<Rightarrow> None | Some s' \<Rightarrow> forEach body xs s')"

fun addGroupToMemory :: "nat \<Rightarrow> GroupManager \<Rightarrow> ref \<Rightarrow> string \<Rightarrow> GroupManager option" where
  "addGroupToMemory 0 st grp storageProviderId = None"
| "addGroupToMemory (Suc n) st grp storageProviderId =
     (let i = gid (heap st ! grp);
          st1 = st\<lparr>root := AList.update i grp (root st),
                   storageMap := AList.update i storageProviderId (storageMap st)\<rparr>;
          st2 = (if parentGroup (heap st1 ! grp) = None
                 then st1\<lparr>rootGroups := AList.update i grp (rootGroups st1)\<rparr> else st1)
      in forEach (\<lambda>childGroup s. addGroupToMemory n s childGroup storageProviderId)
           (childGroups (heap st2 ! grp)) st2)"

text \<open>The shared tail of \<^verbatim>\<open>loadAll\<close> and \<^verbatim>\<open>reloadProvider\<close>:
  \<^verbatim>\<open>const groups = await p.loadRootNodes(); for (const grp of groups) addGroupToMemory(grp, p.id)\<close>.\<close>

definition loadProvider :: "nat \<Rightarrow> provider \<Rightarrow> GroupManager \<Rightarrow> GroupManager option" where
  "loadProvider fuel p st =
     (case providerLoadRootNodes p (heap st) of
        (groups, h) \<Rightarrow>
          forEach (\<lambda>grp s. addGroupToMemory fuel s grp (pid p)) groups (st\<lparr>heap := h\<rparr>))"

definition loadAll :: "nat \<Rightarrow> GroupManager \<Rightarrow> GroupManager option" where
  "loadAll fuel st =
     forEach (\<lambda>(k, p) s. loadProvider fuel p s) (storageProvider st)
       (st\<lparr>root := [], rootGroups := []\<rparr>)"

definition reloadProvider :: "nat \<Rightarrow> GroupManager \<Rightarrow> string \<Rightarrow> GroupManager option" where
  "reloadProvider fuel st storageProviderId =
     (case map_of (storageProvider st) storageProviderId of
        None \<Rightarrow> Some st
      | Some p \<Rightarrow>
          let groupsToRemove = map fst (filter (\<lambda>(groupId, providerId). providerId = storageProviderId)
                                  (storageMap st));
              st1 = fold (\<lambda>groupId s. s\<lparr>root := AList.delete groupId (root s),
                                          rootGroups := AList.delete groupId (rootGroups s),
                                          storageMap := AList.delete groupId (storageMap s)\<rparr>)
                      groupsToRemove st
          in loadProvider fuel p st1)"

definition resetStorage :: "GroupManager \<Rightarrow> GroupManager" where
  "resetStorage st =
     (fold (\<lambda>(k, p) s. s\<lparr>calls := calls s @ [Reset (pid p)]\<rparr>) (storageProvider st) st)
       \<lparr>root := [], rootGroups := []\<rparr>"

section \<open>The child relation of a store\<close>

text \<open>
  \<open>childRel h\<close> holds the pairs (parent, child) of the child lists of the store;
  a descendant of \<open>g\<close> is a group reached from \<open>g\<close> by one or more such steps, and
  the forest is acyclic when no group is its own descendant. \<open>validRefs h\<close> says
  that every child reference is an object of the store.
\<close>

definition childRel :: "heap \<Rightarrow> (ref \<times> ref) set" where
  "childRel h = {(p, c). p < length h \<and> c \<in> set (childGroups (h ! p))}"

definition validRefs :: "heap \<Rightarrow> bool" where
  "validRefs h \<longleftrightarrow> (\<forall>p < length h. \<forall>c \<in> set (childGroups (h ! p)). c < length h)"

text \<open>
  A run of tree operations in which \<open>addChildGroup(p, c)\<close> is only applied to objects
  of the store and only when \<open>p\<close> is neither \<open>c\<close> nor a descendant of \<open>c\<close>; the
  other operations are unrestricted.
\<close>

fun opGuarded :: "heap \<Rightarrow> treeOp \<Rightarrow> bool" where
  "opGuarded h (AddChildGroup this c) =
     (this < length h \<and> c < length h \<and> (c, this) \<notin> (childRel h)\<^sup>*)"
| "opGuarded h _ = True"

fun runGuarded :: "heap \<Rightarrow> treeOp list \<Rightarrow> bool" where
  "runGuarded h [] = True"
| "runGuarded h (op # ops) = (opGuarded h op \<and> runGuarded (applyOp h op) ops)"

text \<open>
  \<^verbatim>\<open>wouldCreateCircularReference(sourceGroup, targetGroup)\<close> of
  \<^verbatim>\<open>FileFocusTreeProvider\<close>: the check made before \<^verbatim>\<open>moveGroup\<close>. The first
  argument bounds the depth of \<^verbatim>\<open>getAllChildGroups\<close>.
\<close>

definition wouldCreateCircularReference :: "nat \<Rightarrow> heap \<Rightarrow> ref \<Rightarrow> ref \<Rightarrow> bool option" where
  "wouldCreateCircularReference fuel h sourceGroup targetGroup =
     (if gid (h ! sourceGroup) = gid (h ! targetGroup) then Some True
      else (case getAllChildGroups fuel h sourceGroup of
              None \<Rightarrow> None
            | Some allDescendants \<Rightarrow>
                Some (list_ex (\<lambda>descendant. gid (h ! descendant) = gid (h ! targetGroup))
                        allDescendants)))"

section \<open>StateStorage: the record format and the migration of the legacy format\<close>

text \<open>
  \<^verbatim>\<open>GroupRecord\<close> of \<^verbatim>\<open>StateStorage.ts\<close>. The optional fields \<^verbatim>\<open>childGroups?\<close> and
  \<^verbatim>\<open>parentId?\<close> are options. \<^verbatim>\<open>Resource\<close> is declared in \<^verbatim>\<open>global.ts\<close>, which is
  not among the sources: it is the type parameter \<open>'r\<close>.
\<close>

datatype 'r GroupRecord =
  GroupRecord (rid: string) (rname: string) (rresources: "'r list")
    (rchildGroups: "'r GroupRecord list option") (rparentId: "string option")

record DeprecateGroupRecord =
  did :: string
  label :: string

text \<open>
  Modelled from the spec: \<^verbatim>\<open>StorageService\<close> (\<^verbatim>\<open>storage/StorageService.ts\<close> is not among
  the sources). The spec describes a single keyed store holding one \<^verbatim>\<open>groupmap\<close> entry,
  one \<^verbatim>\<open>storeversion\<close> integer marker, a deprecated \<^verbatim>\<open>groupstore\<close> mapping and
  per-group \<^verbatim>\<open>A-<id>\<close> path lists. Each key the code uses is a slot of its TypeScript
  type; an absent key is \<open>None\<close>. The slot \<open>pathlist i\<close> is the key \<^verbatim>\<open>`A-${i}`\<close>.
  A stored object (\<^verbatim>\<open>GroupStore\<close>, \<^verbatim>\<open>DeprecateGroupStore\<close>) is the list of its
  properties in the order in which they were created; \<^verbatim>\<open>Object.entries(o)\<close> is
  \<open>objectEntries\<close> of that list (below). A \<^verbatim>\<open>Map\<close> is the list of its entries in
  insertion order, \<^verbatim>\<open>Map.set\<close> is \<open>AList.update\<close> (overwrite in place, or append),
  \<^verbatim>\<open>Map.delete\<close> is \<open>AList.delete\<close>, and \<^verbatim>\<open>Object.fromEntries(map.entries())\<close>
  creates one property for each entry of the map, in its order: it is the list itself.
  \<open>getValue slot d\<close> is \<^verbatim>\<open>storage.getValue(key, d)\<close>: the stored value, or the
  default \<open>d\<close> when the key is absent; \<^verbatim>\<open>setValue\<close> and \<^verbatim>\<open>deleteValue\<close> are the
  updates of a slot to \<open>Some v\<close> and to \<open>None\<close>.
\<close>

record 'r storage =
  storeversion :: "int option"
  groupmap :: "(string \<times> 'r GroupRecord) list option"
  groupstore :: "(string \<times> DeprecateGroupRecord) list option"
  pathlist :: "string \<Rightarrow> string list option"

definition getValue :: "'a option \<Rightarrow> 'a \<Rightarrow> 'a" where
  "getValue slot defaultValue = (case slot of None \<Rightarrow> defaultValue | Some v \<Rightarrow> v)"

text \<open>
  \<^verbatim>\<open>Object.entries\<close> lists the own properties of an object in the order of the
  language: first the keys that are array indices (the decimal numeral, without leading
  zeros, of a number below \<^verbatim>\<open>2^32 - 1\<close>) in ascending numeric order, then every other
  string key in the order of creation.
\<close>

definition isDigit :: "char \<Rightarrow> bool" where
  "isDigit c \<longleftrightarrow> (48::nat) \<le> of_char c \<and> of_char c \<le> (57::nat)"

definition indexValue :: "string \<Rightarrow> nat" where
  "indexValue k = foldl (\<lambda>n c. 10 * n + (of_char c - 48)) 0 k"

definition isArrayIndex :: "string \<Rightarrow> bool" where
  "isArrayIndex k \<longleftrightarrow>
     k \<noteq> [] \<and> list_all isDigit k \<and> (k = ''0'' \<or> hd k \<noteq> CHR ''0'') \<and>
     indexValue k < 4294967295"

definition objectEntries :: "(string \<times> 'a) list \<Rightarrow> (string \<times> 'a) list" where
  "objectEntries obj =
     sort_key (\<lambda>(k, v). indexValue k) (filter (\<lambda>(k, v). isArrayIndex k) obj) @
     filter (\<lambda>(k, v). \<not> isArrayIndex k) obj"

text \<open>
  \<^verbatim>\<open>migrateStorageV1\<close>. \<^verbatim>\<open>Uri.parse\<close> (vscode) and \<^verbatim>\<open>FocusUtil.uriToResource\<close>
  (\<^verbatim>\<open>FocusUtil.ts\<close>, not among the sources) are the parameters \<open>parse\<close> and
  \<open>uriToResource\<close>. The path lists are read from the storage as it is on entry: the
  first loop only reads, and the deletions come after \<^verbatim>\<open>groupmap\<close> is written.
\<close>

definition migrateStorageV1 ::
  "(string \<Rightarrow> Uri) \<Rightarrow> (Uri \<Rightarrow> 'r) \<Rightarrow> 'r storage \<Rightarrow> 'r storage" where
  "migrateStorageV1 parse uriToResource s =
     (if getValue (storeversion s) 0 > 0 then s
      else
        let dstMap = objectEntries (getValue (groupmap s) []);
            srcMap = objectEntries (getValue (groupstore s) []);
            dstMap' = fold (\<lambda>(groupId, srcRecord) m.
                AList.update (did srcRecord)
                  (GroupRecord (did srcRecord) (label srcRecord)
                     (map (\<lambda>path. uriToResource (parse path))
                        (getValue (pathlist s (did srcRecord)) []))
                     None None) m)
              srcMap dstMap;
            s1 = s\<lparr>groupmap := Some dstMap'\<rparr>;
            s2 = fold (\<lambda>(groupId, srcRecord) t.
                t\<lparr>pathlist := (pathlist t)(did srcRecord := None)\<rparr>) srcMap s1;
            s3 = s2\<lparr>groupstore := None\<rparr>
        in s3\<lparr>storeversion := Some 1\<rparr>)"

section \<open>StateStorage: saving and loading the group tree\<close>

text \<open>The loop that builds a list from calls that may not return.\<close>

fun traverse :: "('a \<Rightarrow> 'b option) \<Rightarrow> 'a list \<Rightarrow> 'b list option" where
  "traverse f [] = Some []"
| "traverse f (x # xs) =
     (case f x of
        None \<Rightarrow> None
      | Some y \<Rightarrow> (case traverse f xs of None \<Rightarrow> None | Some ys \<Rightarrow> Some (y # ys)))"

text \<open>
  \<^verbatim>\<open>createGroupRecord\<close> recurses through the child lists; the first argument bounds
  the depth and \<open>None\<close> is the call that does not return. \<^verbatim>\<open>childGroups\<close> of the
  record is \<^verbatim>\<open>undefined\<close> for an empty list of child records, and \<^verbatim>\<open>parentId\<close> is
  \<^verbatim>\<open>group.parentGroup?.id\<close>.
\<close>

fun createGroupRecord :: "nat \<Rightarrow> (Uri \<Rightarrow> 'r) \<Rightarrow> heap \<Rightarrow> ref \<Rightarrow> 'r GroupRecord option" where
  "createGroupRecord 0 uriToResource h grp = None"
| "createGroupRecord (Suc n) uriToResource h grp =
     (case traverse (\<lambda>childGroup. createGroupRecord n uriToResource h childGroup)
             (childGroups (h ! grp)) of
        None \<Rightarrow> None
      | Some childGroupRecords \<Rightarrow>
          Some (GroupRecord (gid (h ! grp)) (name (h ! grp))
                  (map uriToResource (resources (h ! grp)))
                  (if childGroupRecords \<noteq> [] then Some childGroupRecords else None)
                  (map_option (\<lambda>p. gid (h ! p)) (parentGroup (h ! grp)))))"

text \<open>\<^verbatim>\<open>saveGroupRecordRecursive\<close>: an array, also an empty one, passes the test
  \<^verbatim>\<open>if (groupRecord.childGroups)\<close>.\<close>

fun saveGroupRecordRecursive ::
  "(string \<times> 'r GroupRecord) list \<Rightarrow> 'r GroupRecord \<Rightarrow> (string \<times> 'r GroupRecord) list" where
  "saveGroupRecordRecursive storeMap (GroupRecord i n rs cs p) =
     (let storeMap' = AList.update i (GroupRecord i n rs cs p) storeMap
      in case cs of
           None \<Rightarrow> storeMap'
         | Some childRecords \<Rightarrow>
             fold (\<lambda>childRecord m. saveGroupRecordRecursive m childRecord) childRecords storeMap')"

text \<open>
  \<^verbatim>\<open>StateStorage.saveGroup\<close>: \<^verbatim>\<open>storeMap\<close> is
  \<^verbatim>\<open>new Map(Object.entries(groupStore))\<close>, and the object written back is
  \<^verbatim>\<open>Object.fromEntries(storeMap.entries())\<close>, the entries of the map in its order.
\<close>

definition storageSaveGroup ::
  "nat \<Rightarrow> (Uri \<Rightarrow> 'r) \<Rightarrow> 'r storage \<Rightarrow> heap \<Rightarrow> ref \<Rightarrow> 'r storage option" where
  "storageSaveGroup fuel uriToResource s h grp =
     (case createGroupRecord fuel uriToResource h grp of
        None \<Rightarrow> None
      | Some groupRecord \<Rightarrow>
          Some (s\<lparr>groupmap :=
                   Some (saveGroupRecordRecursive (objectEntries (getValue (groupmap s) []))
                           groupRecord)\<rparr>))"

text \<open>
  \<^verbatim>\<open>createGroupFromRecord\<close>. \<^verbatim>\<open>FocusUtil.resourceToUri\<close> is the parameter
  \<open>resourceToUri\<close>; \<open>None\<close> is a result that fails the test \<^verbatim>\<open>if (uri)\<close>. The name of
  a record is a string, so the guard on its type returns it as it is.
\<close>

definition createGroupFromRecord :: "('r \<Rightarrow> Uri option) \<Rightarrow> 'r GroupRecord \<Rightarrow> Group" where
  "createGroupFromRecord resourceToUri groupRecord =
     fold (\<lambda>resource g. case resourceToUri resource of
                            Some uri \<Rightarrow> addResource g uri
                          | None \<Rightarrow> g)
       (rresources groupRecord)
       ((newGroup (rid groupRecord))\<lparr>name := rname groupRecord\<rparr>)"

text \<open>
  \<^verbatim>\<open>loadRootNodes\<close>: the migration, then the two passes over
  \<^verbatim>\<open>new Map(Object.entries(groupStore))\<close>, the entries of \<^verbatim>\<open>groupmap\<close> in the
  order of \<^verbatim>\<open>Object.entries\<close>. The first pass allocates one Group for every record and enters it
  in \<^verbatim>\<open>allGroups\<close> under the id of the record; the second pass looks each key up,
  attaches the children named by the child records, and collects the groups whose
  record has no (or an empty) \<^verbatim>\<open>parentId\<close>. The result is the list of roots, the
  store and the storage.
\<close>

definition loadFirstPass ::
  "('r \<Rightarrow> Uri option) \<Rightarrow> (string \<times> 'r GroupRecord) list \<Rightarrow> heap \<Rightarrow> heap \<times> (string \<times> ref) list" where
  "loadFirstPass resourceToUri storeMap h =
     fold (\<lambda>(groupId, groupRecord) (h', allGroups).
             (h' @ [createGroupFromRecord resourceToUri groupRecord],
              AList.update (rid groupRecord) (length h') allGroups))
       storeMap (h, [])"

definition attachChildren ::
  "(string \<times> ref) list \<Rightarrow> ref \<Rightarrow> 'r GroupRecord list \<Rightarrow> heap \<Rightarrow> heap" where
  "attachChildren allGroups grp childRecords h =
     fold (\<lambda>childRecord h'.
             case map_of allGroups (rid childRecord) of
               Some childGroup \<Rightarrow> addChildGroup h' grp childGroup
             | None \<Rightarrow> h')
       childRecords h"

definition loadSecondPass ::
  "(string \<times> ref) list \<Rightarrow> (string \<times> 'r GroupRecord) list \<Rightarrow> heap \<Rightarrow> heap \<times> ref list" where
  "loadSecondPass allGroups storeMap h =
     fold (\<lambda>(groupId, groupRecord) (h', groups).
             case map_of allGroups groupId of
               None \<Rightarrow> (h', groups)
             | Some grp \<Rightarrow>
                 (case rchildGroups groupRecord of
                    Some childRecords \<Rightarrow> attachChildren allGroups grp childRecords h'
                  | None \<Rightarrow> h',
                  if truthy (rparentId groupRecord) = None then groups @ [grp] else groups))
       storeMap (h, [])"

definition loadRootNodes ::
  "(string \<Rightarrow> Uri) \<Rightarrow> (Uri \<Rightarrow> 'r) \<Rightarrow> ('r \<Rightarrow> Uri option) \<Rightarrow> 'r storage \<Rightarrow> heap \<Rightarrow>
     ref list \<times> heap \<times> 'r storage" where
  "loadRootNodes parse uriToResource resourceToUri s h =
     (let s' = migrateStorageV1 parse uriToResource s;
          storeMap = objectEntries (getValue (groupmap s') []);
          (h1, allGroups) = loadFirstPass resourceToUri storeMap h;
          (h2, groups) = loadSecondPass allGroups storeMap h1
      in (groups, h2, s'))"

text \<open>
  The tree below a group, read off the store: id, name, resources and the trees of the
  children, in order. \<open>parentsOk\<close> says that, down the tree, every child points back
  to the group that lists it. Both follow the child lists to the depth given by the
  first argument. A loaded \<^verbatim>\<open>Uri\<close> is a new object, so two trees are compared after
  \<open>map_gtree uriData\<close>, which keeps the path and the string form of every resource.
\<close>

datatype 'u gtree = GNode (tid: string) (tname: string) (tresources: "'u list")
  (tchildren: "'u gtree list")

definition uriData :: "Uri \<Rightarrow> string \<times> string" where
  "uriData u = (fsPath u, uriString u)"

fun treeOf :: "nat \<Rightarrow> heap \<Rightarrow> ref \<Rightarrow> Uri gtree option" where
  "treeOf 0 h r = None"
| "treeOf (Suc n) h r =
     (case traverse (\<lambda>c. treeOf n h c) (childGroups (h ! r)) of
        None \<Rightarrow> None
      | Some ts \<Rightarrow> Some (GNode (gid (h ! r)) (name (h ! r)) (resources (h ! r)) ts))"

fun parentsOk :: "nat \<Rightarrow> heap \<Rightarrow> ref \<Rightarrow> bool" where
  "parentsOk 0 h r = True"
| "parentsOk (Suc n) h r =
     (\<forall>c \<in> set (childGroups (h ! r)). parentGroup (h ! c) = Some r \<and> parentsOk n h c)"

text \<open>The nodes of a tree (each with its subtree) and its ids, in pre-order.\<close>

fun subtrees :: "'u gtree \<Rightarrow> 'u gtree list" where
  "subtrees (GNode i n rs ts) = GNode i n rs ts # concat (map subtrees ts)"

definition treeIds :: "'u gtree \<Rightarrow> string list" where
  "treeIds t = map tid (subtrees t)"

text \<open>
  The record that \<^verbatim>\<open>createGroupRecord\<close> builds for a tree whose root has the parent
  id \<open>p\<close>, and the entries that \<^verbatim>\<open>saveGroupRecordRecursive\<close> writes for it.
\<close>

fun recOf :: "(Uri \<Rightarrow> 'r) \<Rightarrow> string option \<Rightarrow> Uri gtree \<Rightarrow> 'r GroupRecord" where
  "recOf uriToResource p (GNode i n rs ts) =
     GroupRecord i n (map uriToResource rs)
       (if ts = [] then None else Some (map (recOf uriToResource (Some i)) ts)) p"

fun flat :: "(Uri \<Rightarrow> 'r) \<Rightarrow> string option \<Rightarrow> Uri gtree \<Rightarrow> (string \<times> 'r GroupRecord) list" where
  "flat uriToResource p (GNode i n rs ts) =
     (i, recOf uriToResource p (GNode i n rs ts)) # concat (map (flat uriToResource (Some i)) ts)"

text \<open>
  Notions used to follow a tree through the two passes of \<^verbatim>\<open>loadRootNodes\<close>:
  the children of all nodes of a tree, in the order in which the second pass meets
  them; the Group that the first pass allocates for a node (\<open>conv\<close> gives the URI
  object made for each resource); a sequence of \<^verbatim>\<open>addChildGroup\<close> calls given by
  pairs of parent and child; and the child records of a record, none when the field
  \<^verbatim>\<open>childGroups\<close> is absent.
\<close>

definition kids :: "'u gtree \<Rightarrow> 'u gtree list" where
  "kids t = concat (map tchildren (subtrees t))"

definition loaded :: "(Uri \<Rightarrow> Uri) \<Rightarrow> Uri gtree \<Rightarrow> Group" where
  "loaded conv x = (newGroup (tid x))\<lparr>name := tname x, resources := map conv (tresources x)\<rparr>"

definition attachAll :: "(ref \<times> ref) list \<Rightarrow> heap \<Rightarrow> heap" where
  "attachAll ps h = fold (\<lambda>(p, c) h'. addChildGroup h' p c) ps h"

definition childRecs :: "'r GroupRecord \<Rightarrow> 'r GroupRecord list" where
  "childRecs groupRecord = (case rchildGroups groupRecord of Some crs \<Rightarrow> crs | None \<Rightarrow> [])"

text \<open>
  An entry of the store is the entry of a node when its key is the id of the node and
  its record is the record built for the node (under some parent id). \<open>nodeOrder\<close>
  is the order of \<open>objectEntries\<close> on nodes: by their ids.
\<close>

definition isEntryOf :: "(Uri \<Rightarrow> 'r) \<Rightarrow> string \<times> 'r GroupRecord \<Rightarrow> Uri gtree \<Rightarrow> bool" where
  "isEntryOf u2r e x \<longleftrightarrow> fst e = tid x \<and> (\<exists>q. snd e = recOf u2r q x)"

definition nodeOrder :: "'u gtree list \<Rightarrow> 'u gtree list" where
  "nodeOrder xs =
     sort_key (\<lambda>x. indexValue (tid x)) (filter (\<lambda>x. isArrayIndex (tid x)) xs) @
     filter (\<lambda>x. \<not> isArrayIndex (tid x)) xs"

section \<open>Concrete inputs\<close>

text \<open>Two URIs of the same file that differ in their string form, as
  \<^verbatim>\<open>Uri.parse("file:///a")\<close> and \<^verbatim>\<open>Uri.parse("file:///a?x")\<close> do.\<close>

definition uri_a :: Uri where
  "uri_a = \<lparr>objId = 1, fsPath = ''/a'', uriString = ''file:///a''\<rparr>"

definition uri_a_query :: Uri where
  "uri_a_query = \<lparr>objId = 2, fsPath = ''/a'', uriString = ''file:///a?x''\<rparr>"

text \<open>A second object for the URI of \<open>uri_a\<close>.\<close>

definition uri_a_again :: Uri where
  "uri_a_again = \<lparr>objId = 5, fsPath = ''/a'', uriString = ''file:///a''\<rparr>"

definition uri_b :: Uri where
  "uri_b = \<lparr>objId = 3, fsPath = ''/b'', uriString = ''file:///b''\<rparr>"

definition uri_c :: Uri where
  "uri_c = \<lparr>objId = 4, fsPath = ''/c'', uriString = ''file:///c''\<rparr>"

text \<open>A legacy storage with one group \<open>g1\<close>, labelled \<open>One\<close>, holding one path.\<close>

definition legacy_storage :: "string storage" where
  "legacy_storage = \<lparr>storeversion = None, groupmap = None,
     groupstore = Some [(''g1'', \<lparr>did = ''g1'', label = ''One''\<rparr>)],
     pathlist = (\<lambda>i. if i = ''g1'' then Some [''/a''] else None)\<rparr>"

definition parse_file :: "string \<Rightarrow> Uri" where
  "parse_file p = \<lparr>objId = 0, fsPath = p, uriString = ''file://'' @ p\<rparr>"

text \<open>A provider that owns nothing yet, and a group with a name.\<close>

definition prov_state :: provider where
  "prov_state = \<lparr>pid = ''statestorage'', providerLoadRootNodes = (\<lambda>h. ([], h))\<rparr>"

definition grp_named :: "string \<Rightarrow> string \<Rightarrow> Group" where
  "grp_named i n = (newGroup i)\<lparr>name := n\<rparr>"

text \<open>A manager with the single root group \<open>A\<close>.\<close>

definition st_one :: GroupManager where
  "st_one = \<lparr>heap = [grp_named ''id-a'' ''A''],
     root = [(''id-a'', 0)], rootGroups = [(''id-a'', 0)],
     storageMap = [(''id-a'', ''statestorage'')], pinnedGroupId = [],
     storageProvider = [(''statestorage'', prov_state)], calls = []\<rparr>"

text \<open>The same manager after the caller has built a Group \<open>B\<close> (\<^verbatim>\<open>new Group(id)\<close>,
  not yet added).\<close>

definition st_one_new :: GroupManager where
  "st_one_new = st_one\<lparr>heap := heap st_one @ [grp_named ''id-b'' ''B'']\<rparr>"

text \<open>A manager with the root group \<open>P\<close> and its child \<open>C\<close>.\<close>

definition st_nested :: GroupManager where
  "st_nested = \<lparr>heap = [(grp_named ''id-p'' ''P'')\<lparr>childGroups := [1]\<rparr>,
                        (grp_named ''id-c'' ''C'')\<lparr>parentGroup := Some 0\<rparr>],
     root = [(''id-p'', 0), (''id-c'', 1)], rootGroups = [(''id-p'', 0)],
     storageMap = [(''id-p'', ''statestorage''), (''id-c'', ''statestorage'')],
     pinnedGroupId = [],
     storageProvider = [(''statestorage'', prov_state)], calls = []\<rparr>"

text \<open>A manager with the chain \<open>G\<close>, \<open>A\<close>, \<open>B\<close> (\<open>A\<close> child of \<open>G\<close>, \<open>B\<close>
  child of \<open>A\<close>, \<open>A\<close> holding two resources) and a second root \<open>Z\<close>.\<close>

definition st_three :: GroupManager where
  "st_three = \<lparr>heap = [(grp_named ''id-g'' ''G'')\<lparr>childGroups := [1]\<rparr>,
                       (grp_named ''id-a'' ''A'')\<lparr>resources := [uri_a, uri_b], childGroups := [2],
                         parentGroup := Some 0\<rparr>,
                       (grp_named ''id-b'' ''B'')\<lparr>parentGroup := Some 1\<rparr>,
                       grp_named ''id-z'' ''Z''],
     root = [(''id-g'', 0), (''id-a'', 1), (''id-b'', 2), (''id-z'', 3)],
     rootGroups = [(''id-g'', 0), (''id-z'', 3)],
     storageMap = [(''id-g'', ''statestorage''), (''id-a'', ''statestorage''),
                   (''id-b'', ''statestorage''), (''id-z'', ''statestorage'')],
     pinnedGroupId = [],
     storageProvider = [(''statestorage'', prov_state)], calls = []\<rparr>"

text \<open>Two providers, each answering \<^verbatim>\<open>loadRootNodes()\<close> with one new root group; a
  manager in which both are registered; and the same manager after \<open>loadAll\<close>.\<close>

definition prov_a :: provider where
  "prov_a = \<lparr>pid = ''statestorage'',
     providerLoadRootNodes = (\<lambda>h. ([length h], h @ [grp_named ''id-a'' ''a'']))\<rparr>"

definition prov_b :: provider where
  "prov_b = \<lparr>pid = ''projectstorage'',
     providerLoadRootNodes = (\<lambda>h. ([length h], h @ [grp_named ''id-b'' ''b'']))\<rparr>"

definition st_two :: GroupManager where
  "st_two = \<lparr>heap = [], root = [], rootGroups = [], storageMap = [], pinnedGroupId = [],
     storageProvider = [(''statestorage'', prov_a), (''projectstorage'', prov_b)], calls = []\<rparr>"

definition st_two_loaded :: GroupManager where
  "st_two_loaded = \<lparr>heap = [grp_named ''id-a'' ''a'', grp_named ''id-b'' ''b''],
     root = [(''id-a'', 0), (''id-b'', 1)], rootGroups = [(''id-a'', 0), (''id-b'', 1)],
     storageMap = [(''id-a'', ''statestorage''), (''id-b'', ''projectstorage'')],
     pinnedGroupId = [],
     storageProvider = [(''statestorage'', prov_a), (''projectstorage'', prov_b)], calls = []\<rparr>"

text \<open>A store with two unrelated groups, and a store with a single group.\<close>

definition heap_two :: heap where
  "heap_two = [grp_named ''id-a'' ''A'', grp_named ''id-b'' ''B'']"

definition heap_single :: heap where
  "heap_single = [grp_named ''id-g'' ''G'']"

text \<open>The tree below \<open>G\<close> in \<open>st_three\<close>; a storage that holds nothing; and a
  \<^verbatim>\<open>resourceToUri\<close> for resources that are the string form of a file URI.\<close>

definition tree_three :: "Uri gtree" where
  "tree_three = GNode ''id-g'' ''G'' []
     [GNode ''id-a'' ''A'' [uri_a, uri_b] [GNode ''id-b'' ''B'' [] []]]"

definition fresh_storage :: "string storage" where
  "fresh_storage = \<lparr>storeversion = None, groupmap = None, groupstore = None,
     pathlist = (\<lambda>i. None)\<rparr>"

definition resource_uri :: "string \<Rightarrow> Uri option" where
  "resource_uri s = Some (parse_file (drop 7 s))"

text \<open>
  The store after \<open>C\<close> has been moved from a group \<open>X\<close> to the root \<open>P\<close>, and
  the storage as the manager leaves it at that point: \<^verbatim>\<open>addGroup\<close> saved \<open>P\<close>,
  \<open>X\<close> and \<open>C\<close> (as a child of \<open>X\<close>), \<open>X\<close> was saved with its child, and
  \<^verbatim>\<open>moveGroup\<close> saved \<open>C\<close> with its new parent id. The record of \<open>X\<close> still
  lists \<open>C\<close>. \<open>moved_saved\<close> is that storage after \<open>P\<close> is saved, and
  \<open>nested_saved\<close> is the empty storage after the nested group \<open>C\<close> alone is saved.
\<close>

definition heap_moved :: heap where
  "heap_moved = [(grp_named ''id-p'' ''P'')\<lparr>childGroups := [1]\<rparr>,
                 (grp_named ''id-c'' ''C'')\<lparr>parentGroup := Some 0\<rparr>,
                 grp_named ''id-x'' ''X'']"

definition moved_storage :: "string storage" where
  "moved_storage = \<lparr>storeversion = Some 1,
     groupmap = Some [(''id-p'', GroupRecord ''id-p'' ''P'' [] None None),
                      (''id-x'', GroupRecord ''id-x'' ''X'' []
                          (Some [GroupRecord ''id-c'' ''C'' [] None (Some ''id-x'')]) None),
                      (''id-c'', GroupRecord ''id-c'' ''C'' [] None (Some ''id-p''))],
     groupstore = None, pathlist = (\<lambda>i. None)\<rparr>"

definition moved_saved :: "string storage" where
  "moved_saved = moved_storage\<lparr>groupmap :=
     Some [(''id-p'', GroupRecord ''id-p'' ''P'' []
              (Some [GroupRecord ''id-c'' ''C'' [] None (Some ''id-p'')]) None),
           (''id-x'', GroupRecord ''id-x'' ''X'' []
              (Some [GroupRecord ''id-c'' ''C'' [] None (Some ''id-x'')]) None),
           (''id-c'', GroupRecord ''id-c'' ''C'' [] None (Some ''id-p''))]\<rparr>"

definition nested_saved :: "string storage" where
  "nested_saved = fresh_storage\<lparr>groupmap :=
     Some [(''id-c'', GroupRecord ''id-c'' ''C'' [] None (Some ''id-p''))]\<rparr>"

section \<open>Facts about the list primitives\<close>

lemma findIndex_None_iff: "findIndex P xs = None \<longleftrightarrow> (\<forall>x\<in>set xs. \<not> P x)"
  by (induction xs) auto

lemma findIndex_Some_D:
  "findIndex P xs = Some i \<Longrightarrow> i < length xs \<and> P (xs ! i) \<and> (\<forall>j<i. \<not> P (xs ! j))"
proof (induction xs arbitrary: i)
  case Nil
  then show ?case by simp
next
  case (Cons x xs)
  show ?case
  proof (cases "P x")
    case True
    with Cons.prems show ?thesis by simp
  next
    case False
    with Cons.prems obtain k where k: "findIndex P xs = Some k" "i = Suc k"
      by auto
    from Cons.IH [OF k(1)] False k(2) show ?thesis
      by (auto simp: nth_Cons split: nat.splits)
  qed
qed

lemma findIndex_Some_ex: "(\<exists>x\<in>set xs. P x) \<Longrightarrow> \<exists>i. findIndex P xs = Some i"
  using findIndex_None_iff [of P xs] by (cases "findIndex P xs") auto

section \<open>Resources: deduplication, removal and replacement\<close>

lemma resourceContains_iff:
  "resourceContains g uri \<longleftrightarrow> (\<exists>v\<in>set (resources g). fsPath v = fsPath uri)"
  by (simp add: resourceContains_def list_ex_iff)

lemma addResource_fresh:
  "\<not> resourceContains g uri \<Longrightarrow> addResource g uri = g\<lparr>resources := resources g @ [uri]\<rparr>"
  by (simp add: addResource_def)

lemma addResource_present: "resourceContains g uri \<Longrightarrow> addResource g uri = g"
  by (simp add: addResource_def)

lemma removeResource_absent:
  "\<forall>w\<in>set (resources g). uriString w \<noteq> uriString uri \<Longrightarrow> removeResource g uri = g"
proof -
  assume "\<forall>w\<in>set (resources g). uriString w \<noteq> uriString uri"
  then have "findIndex (\<lambda>item. uriString item = uriString uri) (resources g) = None"
    by (simp add: findIndex_None_iff)
  then show ?thesis by (simp add: removeResource_def)
qed

text \<open>
  Claim C10, as stated: for every group \<open>g\<close> and URIs \<open>u1\<close>, \<open>u2\<close> with equal
  \<open>fsPath\<close> and different string forms, after \<open>g.addResource(u1)\<close> the call
  \<open>g.removeResource(u2)\<close> is a no-op and \<open>u1\<close> remains in \<open>g.resources\<close>.
  This fails for a group that already holds \<open>u2\<close>: \<open>addResource(u1)\<close> is then
  itself refused (same path), \<open>u1\<close> never enters the list, and
  \<open>removeResource(u2)\<close> removes the entry.
\<close>

theorem C10_counterexample:
  "fsPath uri_a = fsPath uri_a_query \<and> uriString uri_a \<noteq> uriString uri_a_query \<and>
   resources (addResource ((newGroup ''g'')\<lparr>resources := [uri_a_query]\<rparr>) uri_a) = [uri_a_query] \<and>
   resources (removeResource (addResource ((newGroup ''g'')\<lparr>resources := [uri_a_query]\<rparr>) uri_a)
       uri_a_query) = []"
  by (simp add: uri_a_def uri_a_query_def newGroup_def addResource_def resourceContains_def
      removeResource_def splice1_def)

text \<open>
  Claim C10, amended: \<open>addResource\<close> deduplicates by \<open>fsPath\<close> while
  \<open>removeResource\<close> matches by the string form. For every group \<open>g\<close> that holds no
  resource with the path of \<open>u1\<close> yet (so that \<open>addResource(u1)\<close> appends \<open>u1\<close>),
  and URIs \<open>u1\<close>, \<open>u2\<close> with equal \<open>fsPath\<close> and different string forms: after
  \<open>g.addResource(u1)\<close>, both \<open>g.addResource(u2)\<close> and \<open>g.removeResource(u2)\<close>
  are no-ops, and \<open>u1\<close> is still in \<open>g.resources\<close>. (The string form of a URI
  determines its path; the last premise says so for the entries of \<open>g\<close>.)
\<close>

theorem C10_add_remove_asymmetry:
  assumes "fsPath u1 = fsPath u2"
    and "uriString u1 \<noteq> uriString u2"
    and "\<not> resourceContains g u1"
    and "\<forall>w\<in>set (resources g). uriString w = uriString u2 \<longrightarrow> fsPath w = fsPath u2"
  shows "resources (addResource g u1) = resources g @ [u1]
    \<and> addResource (addResource g u1) u2 = addResource g u1
    \<and> removeResource (addResource g u1) u2 = addResource g u1
    \<and> u1 \<in> set (resources (removeResource (addResource (addResource g u1) u2) u2))"
proof -
  let ?g1 = "addResource g u1"
  have g1: "?g1 = g\<lparr>resources := resources g @ [u1]\<rparr>"
    using assms(3) by (rule addResource_fresh)
  have res: "resources ?g1 = resources g @ [u1]"
    by (simp add: g1)
  have "resourceContains ?g1 u2"
    using assms(1) by (simp add: resourceContains_iff res)
  then have add2: "addResource ?g1 u2 = ?g1"
    by (rule addResource_present)
  have "\<forall>w\<in>set (resources ?g1). uriString w \<noteq> uriString u2"
    using assms by (auto simp: res resourceContains_iff)
  then have rem2: "removeResource ?g1 u2 = ?g1"
    by (rule removeResource_absent)
  show ?thesis
    by (simp add: add2 rem2 res)
qed

theorem C10_witness:
  "fsPath uri_a = fsPath uri_a_query \<and> uriString uri_a \<noteq> uriString uri_a_query \<and>
   \<not> resourceContains ((newGroup ''g'')\<lparr>resources := [uri_b]\<rparr>) uri_a \<and>
   resources (addResource ((newGroup ''g'')\<lparr>resources := [uri_b]\<rparr>) uri_a) = [uri_b, uri_a] \<and>
   resources (removeResource (addResource (addResource
       ((newGroup ''g'')\<lparr>resources := [uri_b]\<rparr>) uri_a) uri_a_query) uri_a_query) = [uri_b, uri_a]"
  using C10_add_remove_asymmetry [of uri_a uri_a_query "(newGroup ''g'')\<lparr>resources := [uri_b]\<rparr>"]
  by (simp add: uri_a_def uri_a_query_def uri_b_def newGroup_def resourceContains_def)

text \<open>
  \<^verbatim>\<open>replaceResource(from, to)\<close> looks \<open>from\<close> up with \<^verbatim>\<open>indexOf\<close>, that is
  by object identity. If that very object is an entry of \<open>g.resources\<close>, its first
  occurrence is replaced by \<open>to\<close> and nothing else changes. If it is not, the list
  \<open>g.resources\<close>, its length and every other field of the group are unchanged: the
  unguarded write at index \<open>-1\<close> only lands in the array's non-element property
  \<open>"-1"\<close>.
\<close>

lemma replaceResource_cases:
  "(from \<in> set (resources g) \<longrightarrow>
      (\<exists>i<length (resources g). resources g ! i = from \<and> (\<forall>j<i. resources g ! j \<noteq> from) \<and>
         replaceResource g from to = g\<lparr>resources := (resources g)[i := to]\<rparr>)) \<and>
   (from \<notin> set (resources g) \<longrightarrow>
      resources (replaceResource g from to) = resources g \<and>
      replaceResource g from to = g\<lparr>resourceNeg1 := Some to\<rparr>)"
proof (intro conjI impI)
  assume "from \<in> set (resources g)"
  then obtain i where i: "indexOf from (resources g) = Some i"
    unfolding indexOf_def using findIndex_Some_ex [of "resources g" "\<lambda>y. y = from"] by auto
  from findIndex_Some_D [OF i [unfolded indexOf_def]]
  have "i < length (resources g)" "resources g ! i = from" "\<forall>j<i. resources g ! j \<noteq> from"
    by auto
  moreover have "replaceResource g from to = g\<lparr>resources := (resources g)[i := to]\<rparr>"
    by (simp add: replaceResource_def i)
  ultimately show "\<exists>i<length (resources g). resources g ! i = from \<and>
      (\<forall>j<i. resources g ! j \<noteq> from) \<and>
      replaceResource g from to = g\<lparr>resources := (resources g)[i := to]\<rparr>"
    by blast
next
  assume "from \<notin> set (resources g)"
  then have n: "indexOf from (resources g) = None"
    by (auto simp: indexOf_def findIndex_None_iff)
  show "resources (replaceResource g from to) = resources g"
    by (simp add: replaceResource_def n)
  show "replaceResource g from to = g\<lparr>resourceNeg1 := Some to\<rparr>"
    by (simp add: replaceResource_def n)
qed

text \<open>
  Claim C9 at a concrete input. The group holds the URI object \<open>uri_a\<close> of
  \<^verbatim>\<open>file:///a\<close> and \<open>uri_b\<close>; \<open>uri_a_again\<close> is another object for the same
  URI (same path, same string form), as a second \<^verbatim>\<open>Uri.parse("file:///a")\<close> or a
  URI loaded from storage is. The group contains it by the test of \<open>addResource\<close>,
  and \<open>removeResource(uri_a_again)\<close> removes the entry. But
  \<open>replaceResource(uri_a_again, uri_c)\<close> replaces nothing: the resources stay
  \<open>[uri_a, uri_b]\<close>, not \<open>[uri_c, uri_b]\<close>, and \<open>uri_c\<close> is written to the
  property \<open>"-1"\<close> of the array. The documentation of the method says that
  \<open>from\<close> is the resource that will be removed and \<open>to\<close> the one added in its
  place.
\<close>

theorem C9_replaceResource_equal_uri_not_replaced:
  "fsPath uri_a_again = fsPath uri_a \<and> uriString uri_a_again = uriString uri_a \<and>
   resourceContains ((newGroup ''g'')\<lparr>resources := [uri_a, uri_b]\<rparr>) uri_a_again \<and>
   resources (removeResource ((newGroup ''g'')\<lparr>resources := [uri_a, uri_b]\<rparr>) uri_a_again)
     = [uri_b] \<and>
   resources (replaceResource ((newGroup ''g'')\<lparr>resources := [uri_a, uri_b]\<rparr>) uri_a_again uri_c)
     = [uri_a, uri_b] \<and>
   resources (replaceResource ((newGroup ''g'')\<lparr>resources := [uri_a, uri_b]\<rparr>) uri_a_again uri_c)
     \<noteq> [uri_c, uri_b] \<and>
   resourceNeg1 (replaceResource ((newGroup ''g'')\<lparr>resources := [uri_a, uri_b]\<rparr>) uri_a_again uri_c)
     = Some uri_c"
  by (simp add: uri_a_def uri_a_again_def uri_b_def uri_c_def newGroup_def resourceContains_def
      removeResource_def replaceResource_def indexOf_def splice1_def)

section \<open>The order of \<^verbatim>\<open>Object.entries\<close>\<close>

text \<open>\<open>objectEntries\<close> permutes the properties, keeps the first entry of every key,
  and is the identity when no key is an array index.\<close>

lemma set_objectEntries [simp]: "set (objectEntries obj) = set obj"
  by (auto simp: objectEntries_def)

lemma mset_objectEntries [simp]: "mset (objectEntries obj) = mset obj"
  by (simp add: objectEntries_def case_prod_beta)

lemma length_objectEntries [simp]: "length (objectEntries obj) = length obj"
  by (rule mset_eq_length) simp

lemma distinct_map_objectEntries:
  "distinct (map f (objectEntries obj)) = distinct (map f obj)"
proof -
  have "mset (map f (objectEntries obj)) = mset (map f obj)" by simp
  then show ?thesis by (rule mset_eq_imp_distinct_iff)
qed

lemma objectEntries_no_index:
  "\<forall>k \<in> fst ` set obj. \<not> isArrayIndex k \<Longrightarrow> objectEntries obj = obj"
proof -
  assume a: "\<forall>k \<in> fst ` set obj. \<not> isArrayIndex k"
  have 1: "filter (\<lambda>(k, v). isArrayIndex k) obj = []"
    using a by (auto simp: filter_empty_conv)
  have 2: "filter (\<lambda>(k, v). \<not> isArrayIndex k) obj = obj"
    using a by (auto simp: filter_id_conv)
  show ?thesis by (simp add: objectEntries_def 1 2)
qed

lemma objectEntries_Nil [simp]: "objectEntries [] = []"
  by (simp add: objectEntries_def)

lemma map_of_filter_key: "map_of xs k = map_of (filter (\<lambda>e. fst e = k) xs) k"
  by (induction xs) auto

lemma filter_key_objectEntries:
  "filter (\<lambda>e. fst e = k) (objectEntries obj) = filter (\<lambda>e. fst e = k) obj"
proof (cases "isArrayIndex k")
  case True
  let ?f = "\<lambda>(k, v). indexValue k"
  let ?P = "\<lambda>(k, v). isArrayIndex k"
  let ?ys = "filter ?P obj"
  have a: "filter (\<lambda>e. fst e = k) (filter (\<lambda>(k, v). \<not> isArrayIndex k) obj) = []"
    using True by (auto simp: filter_empty_conv)
  have "filter (\<lambda>e. fst e = k) (sort_key ?f ?ys)
      = filter (\<lambda>e. fst e = k) (filter (\<lambda>e. ?f e = indexValue k) (sort_key ?f ?ys))"
    by (auto intro!: filter_cong)
  also have "\<dots> = filter (\<lambda>e. fst e = k) (filter (\<lambda>e. ?f e = indexValue k) ?ys)"
    by (simp only: sort_key_stable)
  also have "\<dots> = filter (\<lambda>e. fst e = k) obj"
    using True by (auto intro!: filter_cong)
  finally have s: "filter (\<lambda>e. fst e = k) (sort_key ?f ?ys) = filter (\<lambda>e. fst e = k) obj" .
  show ?thesis unfolding objectEntries_def filter_append s a by simp
next
  case False
  let ?f = "\<lambda>(k, v). indexValue k"
  have a: "filter (\<lambda>e. fst e = k) (filter (\<lambda>(k, v). isArrayIndex k) obj) = []"
    using False by (auto simp: filter_empty_conv)
  have b: "filter (\<lambda>e. fst e = k) (filter (\<lambda>(k, v). \<not> isArrayIndex k) obj)
      = filter (\<lambda>e. fst e = k) obj"
    using False by (auto intro!: filter_cong)
  show ?thesis
    unfolding objectEntries_def filter_append filter_sort a b by simp
qed

lemma map_of_objectEntries [simp]: "map_of (objectEntries obj) = map_of obj"
proof
  fix k
  show "map_of (objectEntries obj) k = map_of obj k"
    using map_of_filter_key [of "objectEntries obj" k] map_of_filter_key [of obj k]
    by (simp add: filter_key_objectEntries)
qed

text \<open>Array indices come first, in numeric order; \<^verbatim>\<open>01\<close> is not one.\<close>

lemma objectEntries_example:
  "objectEntries [(''b'', 1::nat), (''10'', 2), (''01'', 5), (''2'', 3), (''a'', 4)]
   = [(''2'', 3), (''10'', 2), (''b'', 1), (''01'', 5), (''a'', 4)]"
  by (simp add: objectEntries_def isArrayIndex_def isDigit_def indexValue_def)

lemma objectEntries_idem: "objectEntries (objectEntries obj) = objectEntries obj"
proof -
  let ?f = "\<lambda>(k, v). indexValue k"
  let ?Q = "\<lambda>(k, v). isArrayIndex k"
  let ?Q' = "\<lambda>(k, v). \<not> isArrayIndex k"
  have 1: "filter ?Q (filter ?Q' obj) = []" by (auto simp: filter_empty_conv)
  have 2: "filter ?Q' (filter ?Q obj) = []" by (auto simp: filter_empty_conv)
  have 3: "filter ?Q (filter ?Q obj) = filter ?Q obj" by simp
  have 4: "filter ?Q' (filter ?Q' obj) = filter ?Q' obj" by simp
  have 5: "sort_key ?f (sort_key ?f (filter ?Q obj)) = sort_key ?f (filter ?Q obj)"
    by (rule sort_key_id_if_sorted) (rule sorted_sort_key)
  have a: "filter ?Q (objectEntries obj) = sort_key ?f (filter ?Q obj)"
    unfolding objectEntries_def filter_append filter_sort 1 3 by simp
  have b: "filter ?Q' (objectEntries obj) = filter ?Q' obj"
    unfolding objectEntries_def filter_append filter_sort 2 4 by simp
  show ?thesis
    unfolding objectEntries_def [of "objectEntries obj"] a b 5
    by (simp add: objectEntries_def)
qed

section \<open>The migration runs once\<close>

lemma fold_update_map_of:
  "map_of (fold (\<lambda>(k, r) m. AList.update (f r) (g r) m) src dst) =
     map_of dst ++ map_of (rev (map (\<lambda>(k, r). (f r, g r)) src))"
proof (induction src arbitrary: dst)
  case Nil
  then show ?case by simp
next
  case (Cons a src)
  obtain k r where a: "a = (k, r)" by (cases a)
  show ?case
    by (rule ext) (simp add: a Cons.IH map_add_def update_conv' split: option.splits)
qed

lemma fold_delete_pathlist:
  "pathlist (fold (\<lambda>(k, r) t. t\<lparr>pathlist := (pathlist t)(did r := None)\<rparr>) src s) x =
     (if x \<in> (\<lambda>(k, r). did r) ` set src then None else pathlist s x)"
  by (induction src arbitrary: s) (auto split: prod.splits)

lemma fold_delete_other:
  "storeversion (fold (\<lambda>(k, r) t. t\<lparr>pathlist := (pathlist t)(did r := None)\<rparr>) src s)
     = storeversion s"
  "groupmap (fold (\<lambda>(k, r) t. t\<lparr>pathlist := (pathlist t)(did r := None)\<rparr>) src s)
     = groupmap s"
  "groupstore (fold (\<lambda>(k, r) t. t\<lparr>pathlist := (pathlist t)(did r := None)\<rparr>) src s)
     = groupstore s"
  by (induction src arbitrary: s) (auto split: prod.splits)

lemma map_of_rev_distinct: "distinct (map fst xs) \<Longrightarrow> map_of (rev xs) = map_of xs"
proof
  fix k
  assume d: "distinct (map fst xs)"
  then have d': "distinct (map fst (rev xs))" by (simp add: rev_map [symmetric])
  show "map_of (rev xs) k = map_of xs k"
  proof (cases "map_of xs k")
    case None
    then have "k \<notin> fst ` set xs" by (simp add: map_of_eq_None_iff)
    then have "map_of (rev xs) k = None" by (simp add: map_of_eq_None_iff)
    with None show ?thesis by simp
  next
    case (Some v)
    then have "(k, v) \<in> set (rev xs)" using d by simp
    then show ?thesis using d' Some by simp
  qed
qed

lemma migrate_skip:
  "getValue (storeversion s) 0 > 0 \<Longrightarrow> migrateStorageV1 parse u2r s = s"
  by (simp add: migrateStorageV1_def)

lemma migrate_version:
  "\<not> getValue (storeversion s) 0 > 0 \<Longrightarrow> storeversion (migrateStorageV1 parse u2r s) = Some 1"
  by (simp add: migrateStorageV1_def Let_def)

lemma migrate_groupstore:
  "\<not> getValue (storeversion s) 0 > 0 \<Longrightarrow> groupstore (migrateStorageV1 parse u2r s) = None"
  by (simp add: migrateStorageV1_def Let_def)

lemma migrate_pathlist:
  "\<not> getValue (storeversion s) 0 > 0 \<Longrightarrow>
   pathlist (migrateStorageV1 parse u2r s) x =
     (if x \<in> (\<lambda>(k, r). did r) ` set (getValue (groupstore s) []) then None else pathlist s x)"
  by (simp add: migrateStorageV1_def Let_def fold_delete_pathlist)

lemma migrate_groupmap:
  "\<not> getValue (storeversion s) 0 > 0 \<Longrightarrow>
   groupmap (migrateStorageV1 parse u2r s) =
     Some (fold (\<lambda>(groupId, srcRecord) m.
                AList.update (did srcRecord)
                  (GroupRecord (did srcRecord) (label srcRecord)
                     (map (\<lambda>path. u2r (parse path))
                        (getValue (pathlist s (did srcRecord)) []))
                     None None) m)
              (objectEntries (getValue (groupstore s) []))
              (objectEntries (getValue (groupmap s) [])))"
  by (simp add: migrateStorageV1_def Let_def fold_delete_other)

lemma migrate_idem:
  "migrateStorageV1 parse u2r (migrateStorageV1 parse u2r s) = migrateStorageV1 parse u2r s"
proof (cases "getValue (storeversion s) 0 > 0")
  case True
  then show ?thesis by (simp add: migrate_skip)
next
  case False
  then have "getValue (storeversion (migrateStorageV1 parse u2r s)) 0 > 0"
    by (simp add: migrate_version getValue_def)
  then show ?thesis by (rule migrate_skip)
qed

lemma find_distinct_did:
  assumes "distinct (map (\<lambda>(k, r). did r) xs)" and "(k, r) \<in> set xs"
  shows "find (\<lambda>(k', r'). did r' = did r) xs = Some (k, r)"
  using assms by (induction xs) (auto simp: image_iff)

lemma find_objectEntries:
  assumes "distinct (map (\<lambda>(k, r). did r) src)"
  shows "find (\<lambda>(k, r). did r = x) (objectEntries src) = find (\<lambda>(k, r). did r = x) src"
proof (cases "find (\<lambda>(k, r). did r = x) src")
  case None
  then have "find (\<lambda>(k, r). did r = x) (objectEntries src) = None"
    by (simp add: find_None_iff)
  with None show ?thesis by simp
next
  case (Some a)
  obtain k r where a: "a = (k, r)" by (cases a)
  from Some have m: "(k, r) \<in> set src" and x: "did r = x"
    by (auto simp: a find_Some_iff in_set_conv_nth)
  have d: "distinct (map (\<lambda>(k, r). did r) (objectEntries src))"
    using assms by (simp only: distinct_map_objectEntries)
  have "find (\<lambda>(k', r'). did r' = did r) (objectEntries src) = Some (k, r)"
    by (rule find_distinct_did [OF d]) (simp add: m)
  with Some show ?thesis by (simp add: a x)
qed

lemma migrate_lookup:
  assumes "\<not> getValue (storeversion s) 0 > 0"
    and "distinct (map (\<lambda>(k, r). did r) (getValue (groupstore s) []))"
  shows "map_of (getValue (groupmap (migrateStorageV1 parse u2r s)) []) x =
     (case find (\<lambda>(k, r). did r = x) (getValue (groupstore s) []) of
        Some (k, r) \<Rightarrow> Some (GroupRecord (did r) (label r)
                     (map (\<lambda>path. u2r (parse path)) (getValue (pathlist s (did r)) [])) None None)
      | None \<Rightarrow> map_of (getValue (groupmap s) []) x)"
proof -
  let ?conv = "\<lambda>(k::string, r). (did r, GroupRecord (did r) (label r)
                     (map (\<lambda>path. u2r (parse path)) (getValue (pathlist s (did r)) [])) None None)"
  let ?src = "objectEntries (getValue (groupstore s) [])"
  have fst: "map fst (map ?conv ?src) = map (\<lambda>(k, r). did r) ?src"
    by (simp add: case_prod_beta comp_def)
  have d: "distinct (map fst (map ?conv ?src))"
    using assms(2) by (simp only: fst distinct_map_objectEntries)
  have gm: "map_of (getValue (groupmap (migrateStorageV1 parse u2r s)) []) =
      map_of (getValue (groupmap s) []) ++ map_of (map ?conv ?src)"
    by (simp add: migrate_groupmap [OF assms(1)] getValue_def [of "Some _"]
        fold_update_map_of [where f = did] map_of_rev_distinct [OF d])
  have look: "map_of (map ?conv src) x =
     (case find (\<lambda>(k, r). did r = x) src of
        Some (k, r) \<Rightarrow> Some (GroupRecord (did r) (label r)
                     (map (\<lambda>path. u2r (parse path)) (getValue (pathlist s (did r)) [])) None None)
      | None \<Rightarrow> None)" for src
    by (induction src) auto
  show ?thesis
    by (simp add: gm map_add_def look find_objectEntries [OF assms(2)]
        split: option.splits prod.splits)
qed


text \<open>
  Claim C8: \<open>migrateStorageV1\<close> runs at most once. When the version marker is
  greater than zero the call leaves the storage unchanged. Otherwise (marker unset, or
  not positive), with every legacy record carrying its own id: each legacy record
  \<open>(id, label)\<close> with its path list \<open>A-<id>\<close> becomes the record
  \<open>{id, name = label, resources = paths converted}\<close> of \<open>groupmap\<close> under its id,
  the entries of \<open>groupmap\<close> under other ids are kept, \<open>groupstore\<close> and every
  \<open>A-<id>\<close> of a legacy record are deleted (other keys are kept), and the marker is
  set to 1. In every storage state, running the migration twice equals running it once.
\<close>

theorem C8_migrateStorageV1:
  "(0 < getValue (storeversion s) 0 \<longrightarrow> migrateStorageV1 parse u2r s = s) \<and>
   (\<not> 0 < getValue (storeversion s) 0 \<and>
    distinct (map (\<lambda>(k, r). did r) (getValue (groupstore s) [])) \<longrightarrow>
      storeversion (migrateStorageV1 parse u2r s) = Some 1 \<and>
      groupstore (migrateStorageV1 parse u2r s) = None \<and>
      (\<forall>(k, r) \<in> set (getValue (groupstore s) []).
         map_of (getValue (groupmap (migrateStorageV1 parse u2r s)) []) (did r) =
           Some (GroupRecord (did r) (label r)
             (map (\<lambda>path. u2r (parse path)) (getValue (pathlist s (did r)) [])) None None) \<and>
         pathlist (migrateStorageV1 parse u2r s) (did r) = None) \<and>
      (\<forall>x. x \<notin> (\<lambda>(k, r). did r) ` set (getValue (groupstore s) []) \<longrightarrow>
         map_of (getValue (groupmap (migrateStorageV1 parse u2r s)) []) x =
           map_of (getValue (groupmap s) []) x \<and>
         pathlist (migrateStorageV1 parse u2r s) x = pathlist s x)) \<and>
   migrateStorageV1 parse u2r (migrateStorageV1 parse u2r s) = migrateStorageV1 parse u2r s"
proof (intro conjI impI)
  assume "0 < getValue (storeversion s) 0"
  then show "migrateStorageV1 parse u2r s = s" by (rule migrate_skip)
next
  show "migrateStorageV1 parse u2r (migrateStorageV1 parse u2r s) = migrateStorageV1 parse u2r s"
    by (rule migrate_idem)
next
  assume a: "\<not> 0 < getValue (storeversion s) 0 \<and>
    distinct (map (\<lambda>(k, r). did r) (getValue (groupstore s) []))"
  then have v: "\<not> 0 < getValue (storeversion s) 0"
    and d: "distinct (map (\<lambda>(k, r). did r) (getValue (groupstore s) []))"
    by simp_all
  show "storeversion (migrateStorageV1 parse u2r s) = Some 1"
    using v by (rule migrate_version)
  show "groupstore (migrateStorageV1 parse u2r s) = None"
    using v by (rule migrate_groupstore)
  show "\<forall>(k, r) \<in> set (getValue (groupstore s) []).
         map_of (getValue (groupmap (migrateStorageV1 parse u2r s)) []) (did r) =
           Some (GroupRecord (did r) (label r)
             (map (\<lambda>path. u2r (parse path)) (getValue (pathlist s (did r)) [])) None None) \<and>
         pathlist (migrateStorageV1 parse u2r s) (did r) = None"
  proof (intro ballI, clarify)
    fix k r
    assume m: "(k, r) \<in> set (getValue (groupstore s) [])"
    have f': "find (\<lambda>(k', r'). did r' = did r) (getValue (groupstore s) []) = Some (k, r)"
      using d m by (rule find_distinct_did)
    have "map_of (getValue (groupmap (migrateStorageV1 parse u2r s)) []) (did r) =
           Some (GroupRecord (did r) (label r)
             (map (\<lambda>path. u2r (parse path)) (getValue (pathlist s (did r)) [])) None None)"
      by (simp add: migrate_lookup [OF v d] f')
    moreover have "pathlist (migrateStorageV1 parse u2r s) (did r) = None"
      using m by (force simp: migrate_pathlist [OF v])
    ultimately show "map_of (getValue (groupmap (migrateStorageV1 parse u2r s)) []) (did r) =
           Some (GroupRecord (did r) (label r)
             (map (\<lambda>path. u2r (parse path)) (getValue (pathlist s (did r)) [])) None None) \<and>
         pathlist (migrateStorageV1 parse u2r s) (did r) = None"
      by simp
  qed
  show "\<forall>x. x \<notin> (\<lambda>(k, r). did r) ` set (getValue (groupstore s) []) \<longrightarrow>
         map_of (getValue (groupmap (migrateStorageV1 parse u2r s)) []) x =
           map_of (getValue (groupmap s) []) x \<and>
         pathlist (migrateStorageV1 parse u2r s) x = pathlist s x"
  proof (intro allI impI)
    fix x
    assume n: "x \<notin> (\<lambda>(k, r). did r) ` set (getValue (groupstore s) [])"
    then have "find (\<lambda>(k, r). did r = x) (getValue (groupstore s) []) = None"
      by (auto simp: find_None_iff)
    then show "map_of (getValue (groupmap (migrateStorageV1 parse u2r s)) []) x =
           map_of (getValue (groupmap s) []) x \<and>
         pathlist (migrateStorageV1 parse u2r s) x = pathlist s x"
      using n by (simp add: migrate_lookup [OF v d] migrate_pathlist [OF v])
  qed
qed

theorem C8_witness:
  "\<not> 0 < getValue (storeversion legacy_storage) 0 \<and>
   distinct (map (\<lambda>(k, r). did r) (getValue (groupstore legacy_storage) [])) \<and>
   0 < getValue (storeversion (migrateStorageV1 parse_file uriString legacy_storage)) 0 \<and>
   groupmap (migrateStorageV1 parse_file uriString legacy_storage) =
     Some [(''g1'', GroupRecord ''g1'' ''One'' [''file:///a''] None None)] \<and>
   pathlist (migrateStorageV1 parse_file uriString legacy_storage) ''g1'' = None \<and>
   migrateStorageV1 parse_file uriString (migrateStorageV1 parse_file uriString legacy_storage)
     = migrateStorageV1 parse_file uriString legacy_storage"
  using C8_migrateStorageV1 [of legacy_storage parse_file uriString]
    C8_migrateStorageV1 [of "migrateStorageV1 parse_file uriString legacy_storage"
      parse_file uriString]
  by (simp add: legacy_storage_def parse_file_def migrateStorageV1_def getValue_def
      objectEntries_def isArrayIndex_def isDigit_def indexValue_def)

section \<open>Facts about the tree operations\<close>

text \<open>The tree operations never change the id of an object, nor the size of the store.\<close>

lemma length_removeChildGroup [simp]: "length (removeChildGroup h t c) = length h"
  by (simp add: removeChildGroup_def Let_def split: option.splits)

lemma length_addChildGroup [simp]: "length (addChildGroup h t c) = length h"
  by (simp add: addChildGroup_def Let_def split: option.splits)

lemma nth_list_update_gen:
  "h[r := v] ! x = (if x = r \<and> r < length h then v else h ! x)"
  by (cases "r < length h") (auto simp: nth_list_update list_update_beyond)

lemma gid_removeChildGroup [simp]: "gid (removeChildGroup h t c ! x) = gid (h ! x)"
  by (simp add: removeChildGroup_def Let_def nth_list_update_gen split: option.splits)

lemma gid_addChildGroup [simp]: "gid (addChildGroup h t c ! x) = gid (h ! x)"
  by (simp add: addChildGroup_def Let_def nth_list_update_gen split: option.splits)

lemma collect_Some_member:
  "collect f cs = Some ds \<Longrightarrow> c \<in> set cs \<Longrightarrow>
   \<exists>ds'. f c = Some ds' \<and> c \<in> set ds \<and> set ds' \<subseteq> set ds"
proof (induction cs arbitrary: ds)
  case Nil
  then show ?case by simp
next
  case (Cons a cs)
  from Cons.prems(1) obtain da rest where a: "f a = Some da" and r: "collect f cs = Some rest"
    and ds: "ds = a # da @ rest"
    by (auto split: option.splits)
  show ?case
  proof (cases "c = a")
    case True
    then show ?thesis using a ds by auto
  next
    case False
    with Cons.prems(2) have "c \<in> set cs" by simp
    from Cons.IH [OF r this] show ?thesis using ds by auto
  qed
qed

lemma collect_cong_Some:
  "collect f cs = Some ds \<Longrightarrow>
   (\<And>c ds'. c \<in> set cs \<Longrightarrow> f c = Some ds' \<Longrightarrow> f' c = Some ds') \<Longrightarrow>
   collect f' cs = Some ds"
proof (induction cs arbitrary: ds)
  case Nil
  then show ?case by simp
next
  case (Cons a cs)
  from Cons.prems(1) obtain da rest where a: "f a = Some da" and r: "collect f cs = Some rest"
    and ds: "ds = a # da @ rest"
    by (auto split: option.splits)
  have a': "f' a = Some da" using Cons.prems(2) [of a da] a by simp
  have "collect f' cs = Some rest"
    using Cons.IH [OF r] Cons.prems(2) by simp
  with a' ds show ?case by simp
qed

lemma getAllChildGroups_frame:
  "getAllChildGroups n h g = Some ds \<Longrightarrow>
   (\<forall>r \<in> insert g (set ds). childGroups (h' ! r) = childGroups (h ! r)) \<Longrightarrow>
   getAllChildGroups n h' g = Some ds"
proof (induction n arbitrary: g ds)
  case 0
  then show ?case by simp
next
  case (Suc n)
  from Suc.prems(1)
  have c: "collect (\<lambda>c. getAllChildGroups n h c) (childGroups (h ! g)) = Some ds"
    by simp
  have same: "childGroups (h' ! g) = childGroups (h ! g)"
    using Suc.prems(2) by simp
  have "collect (\<lambda>c. getAllChildGroups n h' c) (childGroups (h ! g)) = Some ds"
  proof (rule collect_cong_Some [OF c])
    fix x ds'
    assume x: "x \<in> set (childGroups (h ! g))" and d: "getAllChildGroups n h x = Some ds'"
    from collect_Some_member [OF c x] d have "x \<in> set ds" "set ds' \<subseteq> set ds"
      by auto
    then have "\<forall>r \<in> insert x (set ds'). childGroups (h' ! r) = childGroups (h ! r)"
      using Suc.prems(2) by auto
    from Suc.IH [OF d this] show "getAllChildGroups n h' x = Some ds'" .
  qed
  then show ?case by (simp add: same)
qed

lemma childGroups_removeChildGroup_other:
  "r \<noteq> t \<Longrightarrow> childGroups (removeChildGroup h t c ! r) = childGroups (h ! r)"
  by (simp add: removeChildGroup_def Let_def nth_list_update_gen split: option.splits)

lemma fold_addResource_distinct:
  "distinct (map fsPath (resources g @ us)) \<Longrightarrow>
   fold (\<lambda>u g'. addResource g' u) us g = g\<lparr>resources := resources g @ us\<rparr>"
proof (induction us arbitrary: g)
  case Nil
  then show ?case by simp
next
  case (Cons u us)
  from Cons.prems have "fsPath u \<notin> fsPath ` set (resources g)"
    by simp
  then have "\<forall>v\<in>set (resources g). fsPath v \<noteq> fsPath u"
    by (metis imageI)
  then have fresh: "\<not> resourceContains g u"
    by (simp add: resourceContains_iff)
  have step: "addResource g u = g\<lparr>resources := resources g @ [u]\<rparr>"
    using fresh by (rule addResource_fresh)
  have "distinct (map fsPath (resources (g\<lparr>resources := resources g @ [u]\<rparr>) @ us))"
    using Cons.prems by simp
  from Cons.IH [OF this] show ?case
    by (simp add: step)
qed

lemma fold_update_at:
  "d < length h \<Longrightarrow>
   fold (\<lambda>u h'. h'[d := f (h' ! d) u]) us h = h[d := fold (\<lambda>u g. f g u) us (h ! d)]"
  by (induction us arbitrary: h) simp_all

lemma sameData_refl [simp]: "sameData g g"
  by (simp add: sameData_def)

lemma sameData_trans: "sameData a b \<Longrightarrow> sameData b c \<Longrightarrow> sameData a c"
  by (simp add: sameData_def)

lemma sameData_removeChildGroup: "sameData (h ! x) (removeChildGroup h t c ! x)"
  by (simp add: removeChildGroup_def Let_def nth_list_update_gen sameData_def split: option.splits)

lemma sameData_addChildGroup: "sameData (h ! x) (addChildGroup h t c ! x)"
  by (simp add: addChildGroup_def removeChildGroup_def Let_def nth_list_update_gen sameData_def
      split: option.splits)

text \<open>Moving a child from its parent q (where it is the first child with its id) to t.\<close>
lemma addChildGroup_move:
  assumes nc: "\<not> childGroupContains h t c"
    and par: "parentGroup (h ! c) = Some q"
    and idx: "findIndex (\<lambda>item. gid (h ! item) = gid (h ! c)) (childGroups (h ! q)) = Some j"
    and ne: "t \<noteq> c" "q \<noteq> c" "q \<noteq> t"
    and len: "t < length h" "c < length h" "q < length h"
  shows "addChildGroup h t c =
     h[q := (h ! q)\<lparr>childGroups := splice1 j (childGroups (h ! q))\<rparr>,
       t := (h ! t)\<lparr>childGroups := childGroups (h ! t) @ [c]\<rparr>,
       c := (h ! c)\<lparr>parentGroup := Some t\<rparr>]"
proof -
  let ?h1 = "h[q := (h ! q)\<lparr>childGroups := splice1 j (childGroups (h ! q))\<rparr>,
       c := (h ! c)\<lparr>parentGroup := None\<rparr>]"
  have r: "removeChildGroup h q c = ?h1"
    using idx ne len by (simp add: removeChildGroup_def Let_def)
  have t1: "?h1 ! t = h ! t"
    using ne len by simp
  have c1: "?h1[t := (h ! t)\<lparr>childGroups := childGroups (h ! t) @ [c]\<rparr>] ! c
      = (h ! c)\<lparr>parentGroup := None\<rparr>"
    using ne len by simp
  have "addChildGroup h t c =
      ?h1[t := (h ! t)\<lparr>childGroups := childGroups (h ! t) @ [c]\<rparr>,
          c := (h ! c)\<lparr>parentGroup := Some t\<rparr>]"
    using nc par by (simp add: addChildGroup_def Let_def r t1 c1)
  also have "\<dots> = h[q := (h ! q)\<lparr>childGroups := splice1 j (childGroups (h ! q))\<rparr>,
       t := (h ! t)\<lparr>childGroups := childGroups (h ! t) @ [c]\<rparr>,
       c := (h ! c)\<lparr>parentGroup := Some t\<rparr>]"
  proof -
    have "c \<noteq> t" using ne by simp
    then have "?h1[t := (h ! t)\<lparr>childGroups := childGroups (h ! t) @ [c]\<rparr>] =
        h[q := (h ! q)\<lparr>childGroups := splice1 j (childGroups (h ! q))\<rparr>,
          t := (h ! t)\<lparr>childGroups := childGroups (h ! t) @ [c]\<rparr>,
          c := (h ! c)\<lparr>parentGroup := None\<rparr>]"
      by (rule list_update_swap)
    then show ?thesis by (simp only: list_update_overwrite)
  qed
  finally show ?thesis .
qed

lemma addChildGroup_fresh:
  assumes nc: "\<not> childGroupContains h t c"
    and par: "parentGroup (h ! c) = None"
    and ne: "t \<noteq> c"
    and len: "t < length h" "c < length h"
  shows "addChildGroup h t c =
     h[t := (h ! t)\<lparr>childGroups := childGroups (h ! t) @ [c]\<rparr>,
       c := (h ! c)\<lparr>parentGroup := Some t\<rparr>]"
  using assms
  by (simp add: addChildGroup_def Let_def nth_list_update_gen)

section \<open>GroupManager: adding and moving groups\<close>

lemma truthy_Some_iff: "truthy p = Some s \<longleftrightarrow> p = Some s \<and> s \<noteq> []"
  by (cases p) auto

lemma truthy_None_iff: "truthy p = None \<longleftrightarrow> p = None \<or> p = Some []"
  by (cases p) auto

lemma saveGroup_fields:
  "heap (saveGroup st g) = heap st"
  "root (saveGroup st g) = root st"
  "rootGroups (saveGroup st g) = rootGroups st"
  "storageMap (saveGroup st g) = storageMap st"
  "storageProvider (saveGroup st g) = storageProvider st"
  by (simp_all add: saveGroup_def split: option.splits)

lemma saveGroup_calls:
  "providerOf st (gid (heap st ! g)) = Some p \<Longrightarrow>
   calls (saveGroup st g) = calls st @ [SaveGroup (pid p) g]"
  by (simp add: saveGroup_def)

text \<open>
  What \<open>addGroup(g, s, p)\<close> does in every case, for a registered provider id \<open>s\<close>:
  \<open>g\<close> is registered in the flattened map and in the routing table, and one
  \<open>saveGroup(g)\<close> call goes to the provider; \<open>g\<close> is put into \<open>rootGroups\<close> when
  no parent id is given (\<open>p\<close> absent or empty).
\<close>

lemma addGroup_registers:
  assumes "map_of (storageProvider st) s = Some prov"
  shows "(truthy p = None \<longrightarrow>
            map_of (rootGroups (addGroup st g s p)) (gid (heap st ! g)) = Some g) \<and>
         map_of (root (addGroup st g s p)) (gid (heap st ! g)) = Some g \<and>
         map_of (storageMap (addGroup st g s p)) (gid (heap st ! g)) = Some s \<and>
         calls (addGroup st g s p) = calls st @ [SaveGroup (pid prov) g]"
proof -
  let ?i = "gid (heap st ! g)"
  define st1 where "st1 = (case truthy p of
      Some q \<Rightarrow> (case map_of (root st) q of
                   Some parent \<Rightarrow> st\<lparr>heap := addChildGroup (heap st) parent g\<rparr>
                 | None \<Rightarrow> st)
    | None \<Rightarrow> st\<lparr>rootGroups := AList.update ?i g (rootGroups st)\<rparr>)"
  define st3 where "st3 = st1\<lparr>root := AList.update ?i g (root st1),
      storageMap := AList.update ?i s (storageMap st1)\<rparr>"
  have add: "addGroup st g s p = saveGroup st3 g"
    by (simp add: addGroup_def st3_def st1_def Let_def)
  have gid1: "gid (heap st1 ! g) = ?i"
    by (simp add: st1_def split: option.splits)
  have sp1: "storageProvider st1 = storageProvider st" and c1: "calls st1 = calls st"
    by (simp_all add: st1_def split: option.splits)
  have rg1: "truthy p = None \<Longrightarrow> map_of (rootGroups st1) ?i = Some g"
    by (simp add: st1_def update_conv')
  have "providerOf st3 (gid (heap st3 ! g)) = Some prov"
    using assms by (simp add: providerOf_def st3_def gid1 sp1 update_conv')
  then have calls: "calls (saveGroup st3 g) = calls st @ [SaveGroup (pid prov) g]"
    by (simp add: saveGroup_calls st3_def c1)
  show ?thesis
    using rg1 calls by (simp add: add saveGroup_fields st3_def update_conv')
qed

text \<open>
  Claim C5 at a concrete input: \<open>addGroup(B, statestorage, nope)\<close> on the manager
  holding the root group \<open>A\<close>, where no group has the id \<open>nope\<close>. The code enters the
  branch \<^verbatim>\<open>if (parentGroupId)\<close>, finds no parent and places \<open>B\<close> nowhere: \<open>B\<close> is
  registered in \<open>root\<close> and in \<open>storageMap\<close> and saved, it has no parent, and it
  is not in \<open>rootGroups\<close>. The claim says that \<open>B\<close> ends up in \<open>rootGroups\<close>.
\<close>

theorem C5_addGroup_unknown_parent_not_root:
  "map_of (root st_one_new) ''nope'' = None \<and>
   gid (heap st_one_new ! 1) = ''id-b'' \<and>
   map_of (rootGroups (addGroup st_one_new 1 ''statestorage'' (Some ''nope''))) ''id-b'' = None \<and>
   parentGroup (heap (addGroup st_one_new 1 ''statestorage'' (Some ''nope'')) ! 1) = None \<and>
   map_of (root (addGroup st_one_new 1 ''statestorage'' (Some ''nope''))) ''id-b'' = Some 1 \<and>
   map_of (storageMap (addGroup st_one_new 1 ''statestorage'' (Some ''nope''))) ''id-b''
     = Some ''statestorage'' \<and>
   calls (addGroup st_one_new 1 ''statestorage'' (Some ''nope'')) = [SaveGroup ''statestorage'' 1]"
  by (simp add: addGroup_def saveGroup_def providerOf_def st_one_new_def st_one_def
      grp_named_def newGroup_def prov_state_def Let_def)

text \<open>
  \<open>moveGroup\<close> with a parent id that is not registered. The group is detached from
  its parent, or from the root set, before the new parent is looked up, and the early
  \<^verbatim>\<open>return false\<close> leaves it detached.
\<close>

lemma moveGroup_unknown_parent:
  assumes "map_of (root st) i = Some g" and "truthy p = Some np"
    and "map_of (root st) np = None"
  shows "moveGroup st i p =
    (False, case parentGroup (heap st ! g) of
              Some q \<Rightarrow> st\<lparr>heap := removeChildGroup (heap st) q g\<rparr>
            | None \<Rightarrow> st\<lparr>rootGroups := AList.delete i (rootGroups st)\<rparr>)"
  using assms by (simp add: moveGroup_def Let_def split: option.splits)

text \<open>
  Claim C3 at two concrete inputs. \<open>moveGroup(id-a, nope)\<close> on the manager holding the
  root group \<open>A\<close> returns false, and \<open>A\<close>, still registered in \<open>root\<close>, is no longer
  in \<open>rootGroups\<close>. \<open>moveGroup(id-c, nope)\<close> on the manager holding \<open>P\<close> with child
  \<open>C\<close> returns false, and \<open>C\<close> has lost its parent: it is neither a child of \<open>P\<close>
  nor a root. The claim says that the forest is left unchanged.
\<close>

theorem C3_moveGroup_unknown_parent_detaches:
  "map_of (root st_one) ''id-a'' = Some 0 \<and> map_of (root st_one) ''nope'' = None \<and>
   map_of (rootGroups st_one) ''id-a'' = Some 0 \<and>
   fst (moveGroup st_one ''id-a'' (Some ''nope'')) = False \<and>
   map_of (root (snd (moveGroup st_one ''id-a'' (Some ''nope'')))) ''id-a'' = Some 0 \<and>
   rootGroups (snd (moveGroup st_one ''id-a'' (Some ''nope''))) = [] \<and>
   map_of (root st_nested) ''id-c'' = Some 1 \<and> map_of (root st_nested) ''nope'' = None \<and>
   parentGroup (heap st_nested ! 1) = Some 0 \<and> childGroups (heap st_nested ! 0) = [1] \<and>
   fst (moveGroup st_nested ''id-c'' (Some ''nope'')) = False \<and>
   parentGroup (heap (snd (moveGroup st_nested ''id-c'' (Some ''nope''))) ! 1) = None \<and>
   childGroups (heap (snd (moveGroup st_nested ''id-c'' (Some ''nope''))) ! 0) = [] \<and>
   map_of (rootGroups (snd (moveGroup st_nested ''id-c'' (Some ''nope'')))) ''id-c'' = None"
  by (simp add: moveGroup_def st_one_def st_nested_def grp_named_def newGroup_def
      removeChildGroup_def splice1_def)

section \<open>GroupManager: removing a group with its subtree\<close>

lemma length_delete_present:
  "distinct (map fst al) \<Longrightarrow> k \<in> fst ` set al \<Longrightarrow>
   Suc (length (AList.delete k al)) = length al"
proof (induction al)
  case Nil
  then show ?case by simp
next
  case (Cons a al)
  show ?case
  proof (cases "fst a = k")
    case True
    with Cons.prems(1) have "k \<notin> fst ` set al" by auto
    with True show ?thesis by simp
  next
    case False
    with Cons.prems have "distinct (map fst al)" "k \<in> fst ` set al" by auto
    with Cons.IH False show ?thesis by simp
  qed
qed

lemma removeGroup_unknown: "map_of (root st) i = None \<Longrightarrow> removeGroup fuel st i = Some st"
  by (simp add: removeGroup_def)

lemma removeGroup_two_descendants:
  assumes reg: "map_of (root st) i = Some g"
    and prov: "providerOf st i = Some prov"
    and desc: "getAllChildGroups fuel (heap st) g = Some [d1, d2]"
    and par: "\<forall>q. parentGroup (heap st ! g) = Some q \<longrightarrow> q \<notin> {g, d1, d2}"
  shows "\<exists>st'. removeGroup fuel st i = Some st' \<and>
     root st' = AList.delete i (AList.delete (gid (heap st ! d2))
                  (AList.delete (gid (heap st ! d1)) (root st))) \<and>
     storageMap st' = AList.delete i (AList.delete (gid (heap st ! d2))
                  (AList.delete (gid (heap st ! d1)) (storageMap st))) \<and>
     calls st' = calls st @ [DeleteGroupId (pid prov) (gid (heap st ! d1)),
                             DeleteGroupId (pid prov) (gid (heap st ! d2)),
                             DeleteGroupId (pid prov) i]"
proof -
  define st1 where "st1 = (case parentGroup (heap st ! g) of
       Some p \<Rightarrow> st\<lparr>heap := removeChildGroup (heap st) p g\<rparr>
     | None \<Rightarrow> st\<lparr>rootGroups := AList.delete i (rootGroups st)\<rparr>)"
  have f1: "root st1 = root st" "storageMap st1 = storageMap st" "calls st1 = calls st"
    by (simp_all add: st1_def split: option.splits)
  have gid1: "gid (heap st1 ! x) = gid (heap st ! x)" for x
    by (simp add: st1_def split: option.splits)
  have "\<forall>r \<in> insert g (set [d1, d2]). childGroups (heap st1 ! r) = childGroups (heap st ! r)"
    using par by (auto simp: st1_def childGroups_removeChildGroup_other split: option.splits)
  with desc have desc1: "getAllChildGroups fuel (heap st1) g = Some [d1, d2]"
    by (rule getAllChildGroups_frame)
  show ?thesis
    by (simp add: removeGroup_def reg prov st1_def [symmetric] desc1 Let_def f1 gid1)
qed

text \<open>
  Claim C6: \<open>removeGroup(g.id)\<close> for a registered group \<open>g\<close> whose subtree holds
  exactly two descendants \<open>d1\<close>, \<open>d2\<close> (what \<open>g.getAllChildGroups()\<close> returns), in
  a manager that satisfies the invariants of the data model: the maps have one entry per
  key, the three ids are distinct, the descendants are registered in the flattened map
  and all three in the routing table, \<open>g\<close> is routed to a registered provider, and the
  parent of \<open>g\<close>, if any, is outside the subtree. The call returns; exactly the three
  entries of \<open>g\<close>, \<open>d1\<close> and \<open>d2\<close> are gone from the flattened map and from the
  routing table; and exactly three \<open>deleteGroupId\<close> calls are issued, all to the
  provider of \<open>g\<close>. For an id that is not registered the call changes nothing.
\<close>

theorem C6_removeGroup:
  assumes i: "i = gid (heap st ! g)"
    and reg: "map_of (root st) i = Some g"
    and prov: "providerOf st i = Some prov"
    and desc: "getAllChildGroups fuel (heap st) g = Some [d1, d2]"
    and par: "\<forall>q. parentGroup (heap st ! g) = Some q \<longrightarrow> q \<notin> {g, d1, d2}"
    and ids: "distinct [i, gid (heap st ! d1), gid (heap st ! d2)]"
    and maps: "distinct (map fst (root st))" "distinct (map fst (storageMap st))"
    and regd: "{gid (heap st ! d1), gid (heap st ! d2)} \<subseteq> fst ` set (root st)"
      "{i, gid (heap st ! d1), gid (heap st ! d2)} \<subseteq> fst ` set (storageMap st)"
  shows "(\<exists>st'. removeGroup fuel st i = Some st' \<and>
      length (root st') + 3 = length (root st) \<and>
      (\<forall>k. map_of (root st') k =
         (if k \<in> {i, gid (heap st ! d1), gid (heap st ! d2)} then None else map_of (root st) k)) \<and>
      length (storageMap st') + 3 = length (storageMap st) \<and>
      (\<forall>k. map_of (storageMap st') k =
         (if k \<in> {i, gid (heap st ! d1), gid (heap st ! d2)} then None
          else map_of (storageMap st) k)) \<and>
      calls st' = calls st @ [DeleteGroupId (pid prov) (gid (heap st ! d1)),
                              DeleteGroupId (pid prov) (gid (heap st ! d2)),
                              DeleteGroupId (pid prov) i]) \<and>
    (\<forall>j n. map_of (root st) j = None \<longrightarrow> removeGroup n st j = Some st)"
proof -
  let ?a = "gid (heap st ! d1)" and ?b = "gid (heap st ! d2)"
  from removeGroup_two_descendants [OF reg prov desc par]
  obtain st' where r: "removeGroup fuel st i = Some st'"
    and root': "root st' = AList.delete i (AList.delete ?b (AList.delete ?a (root st)))"
    and sm': "storageMap st' = AList.delete i (AList.delete ?b (AList.delete ?a (storageMap st)))"
    and calls': "calls st' = calls st @ [DeleteGroupId (pid prov) ?a,
                             DeleteGroupId (pid prov) ?b, DeleteGroupId (pid prov) i]"
    by blast
  have three: "length (AList.delete i (AList.delete ?b (AList.delete ?a al))) + 3 = length al"
    if d: "distinct (map fst al)" and k: "{i, ?a, ?b} \<subseteq> fst ` set al" for al :: "(string \<times> 'v) list"
  proof -
    have 1: "Suc (length (AList.delete ?a al)) = length al"
      using d k by (simp add: length_delete_present)
    have d1: "distinct (map fst (AList.delete ?a al))"
      using d by (rule distinct_delete)
    have "?b \<in> fst ` set (AList.delete ?a al)"
      using k ids by (force simp: AList.delete_eq)
    then have 2: "Suc (length (AList.delete ?b (AList.delete ?a al))) = length (AList.delete ?a al)"
      using d1 by (simp add: length_delete_present)
    have d2: "distinct (map fst (AList.delete ?b (AList.delete ?a al)))"
      using d1 by (rule distinct_delete)
    have "i \<in> fst ` set (AList.delete ?b (AList.delete ?a al))"
      using k ids by (force simp: AList.delete_eq)
    then have 3: "Suc (length (AList.delete i (AList.delete ?b (AList.delete ?a al))))
        = length (AList.delete ?b (AList.delete ?a al))"
      using d2 by (simp add: length_delete_present)
    from 1 2 3 show ?thesis by simp
  qed
  have look: "map_of (AList.delete i (AList.delete ?b (AList.delete ?a al))) k =
      (if k \<in> {i, ?a, ?b} then None else map_of al k)" for al :: "(string \<times> 'v) list" and k
    by (simp add: delete_conv')
  have "i \<in> fst ` set (root st)"
    using reg by (force dest: map_of_SomeD)
  with regd(1) have kr: "{i, ?a, ?b} \<subseteq> fst ` set (root st)" by simp
  have "length (root st') + 3 = length (root st)"
    unfolding root' using maps(1) kr by (rule three)
  moreover have "length (storageMap st') + 3 = length (storageMap st)"
    unfolding sm' using maps(2) regd(2) by (rule three)
  moreover have "\<forall>j n. map_of (root st) j = None \<longrightarrow> removeGroup n st j = Some st"
    by (simp add: removeGroup_unknown)
  ultimately show ?thesis
    using r calls' by (simp add: root' sm' look)
qed

theorem C6_witness:
  "map_of (root st_three) ''id-g'' = Some 0 \<and> gid (heap st_three ! 0) = ''id-g'' \<and>
   providerOf st_three ''id-g'' = Some prov_state \<and>
   getAllChildGroups 3 (heap st_three) 0 = Some [1, 2] \<and>
   parentGroup (heap st_three ! 0) = None \<and>
   length (root st_three) = 4 \<and> length (storageMap st_three) = 4 \<and>
   (\<exists>st'. removeGroup 3 st_three ''id-g'' = Some st' \<and>
      length (root st') = 1 \<and> map_of (root st') ''id-z'' = Some 3 \<and>
      map_of (root st') ''id-g'' = None \<and> map_of (root st') ''id-a'' = None \<and>
      map_of (root st') ''id-b'' = None \<and>
      length (storageMap st') = 1 \<and> map_of (storageMap st') ''id-z'' = Some ''statestorage'' \<and>
      calls st' = [DeleteGroupId ''statestorage'' ''id-a'', DeleteGroupId ''statestorage'' ''id-b'',
                   DeleteGroupId ''statestorage'' ''id-g'']) \<and>
   map_of (root st_three) ''nope'' = None \<and> removeGroup 0 st_three ''nope'' = Some st_three"
proof -
  have h: "heap st_three ! 0 = (grp_named ''id-g'' ''G'')\<lparr>childGroups := [1]\<rparr>"
    "heap st_three ! 2 = (grp_named ''id-b'' ''B'')\<lparr>parentGroup := Some 1\<rparr>"
    by (simp_all add: st_three_def)
  have m: "root st_three = [(''id-g'', 0), (''id-a'', 1), (''id-b'', 2), (''id-z'', 3)]"
    "storageMap st_three = [(''id-g'', ''statestorage''), (''id-a'', ''statestorage''),
                   (''id-b'', ''statestorage''), (''id-z'', ''statestorage'')]"
    "calls st_three = []"
    by (simp_all add: st_three_def)
  have gids: "gid (heap st_three ! 0) = ''id-g''" "gid (heap st_three ! 1) = ''id-a''"
    "gid (heap st_three ! 2) = ''id-b''" "gid (heap st_three ! Suc 0) = ''id-a''"
    by (simp_all add: st_three_def grp_named_def newGroup_def)
  have a1: "''id-g'' = gid (heap st_three ! 0)" by (simp add: gids)
  have a2: "map_of (root st_three) ''id-g'' = Some 0" by (simp add: m)
  have a3: "providerOf st_three ''id-g'' = Some prov_state"
    by (simp add: providerOf_def m) (simp add: st_three_def)
  have a4: "getAllChildGroups 3 (heap st_three) 0 = Some [1, 2]"
    by (simp add: numeral_3_eq_3 st_three_def grp_named_def newGroup_def)
  have a5: "\<forall>q. parentGroup (heap st_three ! 0) = Some q \<longrightarrow> q \<notin> {0, 1, 2}"
    by (simp add: h grp_named_def newGroup_def)
  have a6: "distinct [''id-g'', gid (heap st_three ! 1), gid (heap st_three ! 2)]"
    by (simp add: gids)
  have a7: "distinct (map fst (root st_three))" "distinct (map fst (storageMap st_three))"
    by (simp_all add: m)
  have a8: "{gid (heap st_three ! 1), gid (heap st_three ! 2)} \<subseteq> fst ` set (root st_three)"
    "{''id-g'', gid (heap st_three ! 1), gid (heap st_three ! 2)} \<subseteq> fst ` set (storageMap st_three)"
    by (simp_all add: gids m)
  note c6 = C6_removeGroup [OF a1 a2 a3 a4 a5 a6 a7 a8]
  from c6 obtain st' where r: "removeGroup 3 st_three ''id-g'' = Some st'"
    and l1: "length (root st') + 3 = length (root st_three)"
    and k1: "\<forall>k. map_of (root st') k =
         (if k \<in> {''id-g'', gid (heap st_three ! 1), gid (heap st_three ! 2)} then None
          else map_of (root st_three) k)"
    and l2: "length (storageMap st') + 3 = length (storageMap st_three)"
    and k2: "\<forall>k. map_of (storageMap st') k =
         (if k \<in> {''id-g'', gid (heap st_three ! 1), gid (heap st_three ! 2)} then None
          else map_of (storageMap st_three) k)"
    and c: "calls st' = calls st_three @ [DeleteGroupId (pid prov_state) (gid (heap st_three ! 1)),
                              DeleteGroupId (pid prov_state) (gid (heap st_three ! 2)),
                              DeleteGroupId (pid prov_state) ''id-g'']"
    by blast
  have n: "map_of (root st_three) ''nope'' = None" by (simp add: m)
  with c6 have u: "removeGroup 0 st_three ''nope'' = Some st_three" by blast
  have e: "length (root st') = 1" "map_of (root st') ''id-z'' = Some 3"
    "map_of (root st') ''id-g'' = None" "map_of (root st') ''id-a'' = None"
    "map_of (root st') ''id-b'' = None"
    "length (storageMap st') = 1" "map_of (storageMap st') ''id-z'' = Some ''statestorage''"
    "calls st' = [DeleteGroupId ''statestorage'' ''id-a'', DeleteGroupId ''statestorage'' ''id-b'',
                   DeleteGroupId ''statestorage'' ''id-g'']"
    using l1 l2 by (simp_all add: k1 k2 c gids m prov_state_def)
  have "parentGroup (heap st_three ! 0) = None"
    by (simp add: h grp_named_def newGroup_def)
  with r e a2 a3 a4 n u gids(1) show ?thesis
    by (simp add: m)
qed

section \<open>GroupManager: loading from the providers\<close>

lemma addGroupToMemory_leaf:
  "childGroups (heap st ! r) = [] \<Longrightarrow>
   addGroupToMemory (Suc n) st r s =
     Some (st\<lparr>root := AList.update (gid (heap st ! r)) r (root st),
              storageMap := AList.update (gid (heap st ! r)) s (storageMap st),
              rootGroups := (if parentGroup (heap st ! r) = None
                             then AList.update (gid (heap st ! r)) r (rootGroups st)
                             else rootGroups st)\<rparr>)"
  by (simp add: Let_def)

lemma loadProvider_one_root:
  assumes "providerLoadRootNodes p (heap st) = ([r], h)"
    and "childGroups (h ! r) = []" and "parentGroup (h ! r) = None"
  shows "loadProvider (Suc n) p st =
     Some (st\<lparr>heap := h,
              root := AList.update (gid (h ! r)) r (root st),
              storageMap := AList.update (gid (h ! r)) (pid p) (storageMap st),
              rootGroups := AList.update (gid (h ! r)) r (rootGroups st)\<rparr>)"
  using assms by (simp add: loadProvider_def Let_def)

lemma fold_delete_fields:
  "root (fold (\<lambda>groupId s. s\<lparr>root := AList.delete groupId (root s),
        rootGroups := AList.delete groupId (rootGroups s),
        storageMap := AList.delete groupId (storageMap s)\<rparr>) ks st) = fold AList.delete ks (root st)"
  "rootGroups (fold (\<lambda>groupId s. s\<lparr>root := AList.delete groupId (root s),
        rootGroups := AList.delete groupId (rootGroups s),
        storageMap := AList.delete groupId (storageMap s)\<rparr>) ks st) = fold AList.delete ks (rootGroups st)"
  "storageMap (fold (\<lambda>groupId s. s\<lparr>root := AList.delete groupId (root s),
        rootGroups := AList.delete groupId (rootGroups s),
        storageMap := AList.delete groupId (storageMap s)\<rparr>) ks st) = fold AList.delete ks (storageMap st)"
  "heap (fold (\<lambda>groupId s. s\<lparr>root := AList.delete groupId (root s),
        rootGroups := AList.delete groupId (rootGroups s),
        storageMap := AList.delete groupId (storageMap s)\<rparr>) ks st) = heap st"
  "storageProvider (fold (\<lambda>groupId s. s\<lparr>root := AList.delete groupId (root s),
        rootGroups := AList.delete groupId (rootGroups s),
        storageMap := AList.delete groupId (storageMap s)\<rparr>) ks st) = storageProvider st"
  "calls (fold (\<lambda>groupId s. s\<lparr>root := AList.delete groupId (root s),
        rootGroups := AList.delete groupId (rootGroups s),
        storageMap := AList.delete groupId (storageMap s)\<rparr>) ks st) = calls st"
  by (induction ks arbitrary: st) simp_all

lemma map_of_fold_delete:
  "map_of (fold AList.delete ks al) k = (if k \<in> set ks then None else map_of al k)"
  by (induction ks arbitrary: al) (simp_all add: delete_conv')

lemma routed_keys:
  "distinct (map fst al) \<Longrightarrow>
   k \<in> set (map fst (filter (\<lambda>(groupId, providerId). providerId = s) al)) \<longleftrightarrow> map_of al k = Some s"
  by (auto simp: image_iff)

lemma loadAll_two_providers:
  assumes provs: "storageProvider st = [(k1, p1), (k2, p2)]"
    and l1: "providerLoadRootNodes p1 (heap st) = ([r1], h1)"
      "childGroups (h1 ! r1) = []" "parentGroup (h1 ! r1) = None"
    and l2: "providerLoadRootNodes p2 h1 = ([r2], h2)"
      "childGroups (h2 ! r2) = []" "parentGroup (h2 ! r2) = None"
    and ids: "gid (h1 ! r1) \<noteq> gid (h2 ! r2)"
  shows "\<exists>st'. loadAll (Suc n) st = Some st' \<and>
     root st' = [(gid (h1 ! r1), r1), (gid (h2 ! r2), r2)] \<and>
     rootGroups st' = [(gid (h1 ! r1), r1), (gid (h2 ! r2), r2)] \<and> heap st' = h2"
proof -
  define st0 where "st0 = st\<lparr>root := [], rootGroups := []\<rparr>"
  define st1 where "st1 = st0\<lparr>heap := h1,
              root := AList.update (gid (h1 ! r1)) r1 (root st0),
              storageMap := AList.update (gid (h1 ! r1)) (pid p1) (storageMap st0),
              rootGroups := AList.update (gid (h1 ! r1)) r1 (rootGroups st0)\<rparr>"
  define st2 where "st2 = st1\<lparr>heap := h2,
              root := AList.update (gid (h2 ! r2)) r2 (root st1),
              storageMap := AList.update (gid (h2 ! r2)) (pid p2) (storageMap st1),
              rootGroups := AList.update (gid (h2 ! r2)) r2 (rootGroups st1)\<rparr>"
  have 1: "loadProvider (Suc n) p1 st0 = Some st1"
    unfolding st1_def by (rule loadProvider_one_root) (simp_all add: l1 st0_def)
  have 2: "loadProvider (Suc n) p2 st1 = Some st2"
    unfolding st2_def by (rule loadProvider_one_root) (simp_all add: l2 st1_def)
  have "loadAll (Suc n) st = Some st2"
    by (simp add: loadAll_def provs st0_def [symmetric] 1 2)
  moreover have "root st2 = [(gid (h1 ! r1), r1), (gid (h2 ! r2), r2)]"
    "rootGroups st2 = [(gid (h1 ! r1), r1), (gid (h2 ! r2), r2)]" "heap st2 = h2"
    using ids by (simp_all add: st2_def st1_def st0_def)
  ultimately show ?thesis by blast
qed

lemma reloadProvider_one_root:
  assumes keys: "distinct (map fst (storageMap st))"
    and prov: "map_of (storageProvider st) s = Some p" "pid p = s"
    and l: "providerLoadRootNodes p (heap st) = ([r], h)"
      "childGroups (h ! r) = []" "parentGroup (h ! r) = None"
  shows "\<exists>st'. reloadProvider (Suc n) st s = Some st' \<and> heap st' = h \<and>
     (\<forall>k. k \<noteq> gid (h ! r) \<longrightarrow>
        (map_of (storageMap st) k \<noteq> Some s \<longrightarrow>
           map_of (root st') k = map_of (root st) k \<and>
           map_of (rootGroups st') k = map_of (rootGroups st) k \<and>
           map_of (storageMap st') k = map_of (storageMap st) k) \<and>
        (map_of (storageMap st) k = Some s \<longrightarrow>
           map_of (root st') k = None \<and> map_of (rootGroups st') k = None \<and>
           map_of (storageMap st') k = None)) \<and>
     map_of (root st') (gid (h ! r)) = Some r \<and>
     map_of (rootGroups st') (gid (h ! r)) = Some r \<and>
     map_of (storageMap st') (gid (h ! r)) = Some s"
proof -
  define ks where "ks = map fst (filter (\<lambda>(groupId, providerId). providerId = s) (storageMap st))"
  define st1 where "st1 = fold (\<lambda>groupId s. s\<lparr>root := AList.delete groupId (root s),
        rootGroups := AList.delete groupId (rootGroups s),
        storageMap := AList.delete groupId (storageMap s)\<rparr>) ks st"
  have f: "root st1 = fold AList.delete ks (root st)"
    "rootGroups st1 = fold AList.delete ks (rootGroups st)"
    "storageMap st1 = fold AList.delete ks (storageMap st)"
    "heap st1 = heap st"
    by (simp_all add: st1_def fold_delete_fields)
  have k: "k \<in> set ks \<longleftrightarrow> map_of (storageMap st) k = Some s" for k
    unfolding ks_def using keys by (rule routed_keys)
  have r: "reloadProvider (Suc n) st s = loadProvider (Suc n) p st1"
    by (simp add: reloadProvider_def prov st1_def ks_def)
  have lp: "loadProvider (Suc n) p st1 = Some (st1\<lparr>heap := h,
              root := AList.update (gid (h ! r)) r (root st1),
              storageMap := AList.update (gid (h ! r)) (pid p) (storageMap st1),
              rootGroups := AList.update (gid (h ! r)) r (rootGroups st1)\<rparr>)"
    by (rule loadProvider_one_root) (simp_all add: l f)
  show ?thesis
    by (simp add: r lp f update_conv' map_of_fold_delete k prov)
qed

text \<open>
  Claim C7. First part: two providers are registered and each answers
  \<open>loadRootNodes()\<close> with one root group without children; the two groups have
  distinct names, and their ids are derived from the names by \<open>makeGroupId\<close>, which
  does not collide on the two names. Then \<open>loadAll()\<close> returns with two entries in
  \<open>rootGroups\<close> and two in the flattened map. Second part, for every manager state
  (one routing entry per id) and every registered provider \<open>p\<close> that answers with one
  root group of id \<open>a\<close>: \<open>reloadProvider(p)\<close> removes exactly the entries routed to
  \<open>p\<close> and merges the reloaded group; every other id \<open>k \<noteq> a\<close>, in particular
  every group routed to another provider, keeps its entries in the flattened map, in
  the root set and in the routing table as they were, and the manager changes no object.
\<close>

theorem C7_loadAll_reloadProvider:
  assumes provs: "storageProvider st = [(k1, p1), (k2, p2)]"
    and l1: "providerLoadRootNodes p1 (heap st) = ([r1], h1)"
      "childGroups (h1 ! r1) = []" "parentGroup (h1 ! r1) = None"
    and l2: "providerLoadRootNodes p2 h1 = ([r2], h2)"
      "childGroups (h2 ! r2) = []" "parentGroup (h2 ! r2) = None"
    and names: "name (h1 ! r1) \<noteq> name (h2 ! r2)"
    and derived: "gid (h1 ! r1) = makeGroupId (name (h1 ! r1))"
      "gid (h2 ! r2) = makeGroupId (name (h2 ! r2))"
    and nocoll: "inj_on makeGroupId {name (h1 ! r1), name (h2 ! r2)}"
  shows "(\<exists>st'. loadAll (Suc n) st = Some st' \<and>
            length (rootGroups st') = 2 \<and> length (root st') = 2 \<and>
            root st' = [(gid (h1 ! r1), r1), (gid (h2 ! r2), r2)] \<and>
            rootGroups st' = [(gid (h1 ! r1), r1), (gid (h2 ! r2), r2)]) \<and>
    (\<forall>st0 s p r h.
       distinct (map fst (storageMap st0)) \<and>
       map_of (storageProvider st0) s = Some p \<and> pid p = s \<and>
       providerLoadRootNodes p (heap st0) = ([r], h) \<and>
       childGroups (h ! r) = [] \<and> parentGroup (h ! r) = None \<longrightarrow>
       (\<exists>st'. reloadProvider (Suc n) st0 s = Some st' \<and> heap st' = h \<and>
          (\<forall>k. k \<noteq> gid (h ! r) \<longrightarrow>
             (map_of (storageMap st0) k \<noteq> Some s \<longrightarrow>
                map_of (root st') k = map_of (root st0) k \<and>
                map_of (rootGroups st') k = map_of (rootGroups st0) k \<and>
                map_of (storageMap st') k = map_of (storageMap st0) k) \<and>
             (map_of (storageMap st0) k = Some s \<longrightarrow>
                map_of (root st') k = None \<and> map_of (rootGroups st') k = None \<and>
                map_of (storageMap st') k = None)) \<and>
          map_of (root st') (gid (h ! r)) = Some r \<and>
          map_of (rootGroups st') (gid (h ! r)) = Some r \<and>
          map_of (storageMap st') (gid (h ! r)) = Some s))"
proof (rule conjI)
  have "makeGroupId (name (h1 ! r1)) \<noteq> makeGroupId (name (h2 ! r2))"
    using names nocoll by (auto simp: inj_on_def)
  then have ids: "gid (h1 ! r1) \<noteq> gid (h2 ! r2)"
    by (simp add: derived)
  from loadAll_two_providers [OF provs l1 l2 ids, of n]
  show "\<exists>st'. loadAll (Suc n) st = Some st' \<and>
            length (rootGroups st') = 2 \<and> length (root st') = 2 \<and>
            root st' = [(gid (h1 ! r1), r1), (gid (h2 ! r2), r2)] \<and>
            rootGroups st' = [(gid (h1 ! r1), r1), (gid (h2 ! r2), r2)]"
    by auto
next
  show "\<forall>st0 s p r h.
       distinct (map fst (storageMap st0)) \<and>
       map_of (storageProvider st0) s = Some p \<and> pid p = s \<and>
       providerLoadRootNodes p (heap st0) = ([r], h) \<and>
       childGroups (h ! r) = [] \<and> parentGroup (h ! r) = None \<longrightarrow>
       (\<exists>st'. reloadProvider (Suc n) st0 s = Some st' \<and> heap st' = h \<and>
          (\<forall>k. k \<noteq> gid (h ! r) \<longrightarrow>
             (map_of (storageMap st0) k \<noteq> Some s \<longrightarrow>
                map_of (root st') k = map_of (root st0) k \<and>
                map_of (rootGroups st') k = map_of (rootGroups st0) k \<and>
                map_of (storageMap st') k = map_of (storageMap st0) k) \<and>
             (map_of (storageMap st0) k = Some s \<longrightarrow>
                map_of (root st') k = None \<and> map_of (rootGroups st') k = None \<and>
                map_of (storageMap st') k = None)) \<and>
          map_of (root st') (gid (h ! r)) = Some r \<and>
          map_of (rootGroups st') (gid (h ! r)) = Some r \<and>
          map_of (storageMap st') (gid (h ! r)) = Some s)"
  proof (intro allI impI, elim conjE)
    fix st0 :: GroupManager and s p r h
    assume "distinct (map fst (storageMap st0))" "map_of (storageProvider st0) s = Some p"
      "pid p = s" "providerLoadRootNodes p (heap st0) = ([r], h)"
      "childGroups (h ! r) = []" "parentGroup (h ! r) = None"
    then show "\<exists>st'. reloadProvider (Suc n) st0 s = Some st' \<and> heap st' = h \<and>
          (\<forall>k. k \<noteq> gid (h ! r) \<longrightarrow>
             (map_of (storageMap st0) k \<noteq> Some s \<longrightarrow>
                map_of (root st') k = map_of (root st0) k \<and>
                map_of (rootGroups st') k = map_of (rootGroups st0) k \<and>
                map_of (storageMap st') k = map_of (storageMap st0) k) \<and>
             (map_of (storageMap st0) k = Some s \<longrightarrow>
                map_of (root st') k = None \<and> map_of (rootGroups st') k = None \<and>
                map_of (storageMap st') k = None)) \<and>
          map_of (root st') (gid (h ! r)) = Some r \<and>
          map_of (rootGroups st') (gid (h ! r)) = Some r \<and>
          map_of (storageMap st') (gid (h ! r)) = Some s"
      by (rule reloadProvider_one_root)
  qed
qed

theorem C7_witness:
  "storageProvider st_two = [(''statestorage'', prov_a), (''projectstorage'', prov_b)] \<and>
   providerLoadRootNodes prov_a (heap st_two) = ([0], [grp_named ''id-a'' ''a'']) \<and>
   providerLoadRootNodes prov_b [grp_named ''id-a'' ''a'']
     = ([1], [grp_named ''id-a'' ''a'', grp_named ''id-b'' ''b'']) \<and>
   (\<exists>st'. loadAll 1 st_two = Some st' \<and> length (rootGroups st') = 2 \<and> length (root st') = 2 \<and>
      root st' = [(''id-a'', 0), (''id-b'', 1)]) \<and>
   map_of (storageProvider st_two_loaded) ''statestorage'' = Some prov_a \<and>
   map_of (storageMap st_two_loaded) ''id-b'' = Some ''projectstorage'' \<and>
   (\<exists>st'. reloadProvider 1 st_two_loaded ''statestorage'' = Some st' \<and>
      map_of (root st') ''id-b'' = Some 1 \<and> map_of (rootGroups st') ''id-b'' = Some 1 \<and>
      map_of (storageMap st') ''id-b'' = Some ''projectstorage'' \<and>
      heap st' ! 1 = grp_named ''id-b'' ''b'' \<and>
      map_of (root st') ''id-a'' = Some 2 \<and> map_of (storageMap st') ''id-a'' = Some ''statestorage'')"
proof -
  let ?A = "grp_named ''id-a'' ''a''" and ?B = "grp_named ''id-b'' ''b''"
  have g: "gid ?A = ''id-a''" "gid ?B = ''id-b''" "name ?A = ''a''" "name ?B = ''b''"
    "childGroups ?A = []" "childGroups ?B = []" "parentGroup ?A = None" "parentGroup ?B = None"
    by (simp_all add: grp_named_def newGroup_def)
  have a1: "storageProvider st_two = [(''statestorage'', prov_a), (''projectstorage'', prov_b)]"
    by (simp add: st_two_def)
  have a2: "providerLoadRootNodes prov_a (heap st_two) = ([0], [?A])"
    by (simp add: prov_a_def st_two_def)
  have a3: "providerLoadRootNodes prov_b [?A] = ([1], [?A, ?B])"
    by (simp add: prov_b_def)
  have a4: "childGroups ([?A] ! 0) = []" "parentGroup ([?A] ! 0) = None"
    "childGroups ([?A, ?B] ! 1) = []" "parentGroup ([?A, ?B] ! 1) = None"
    by (simp_all add: g)
  have a5: "name ([?A] ! 0) \<noteq> name ([?A, ?B] ! 1)"
    by (simp add: g)
  have a6: "gid ([?A] ! 0) = (\<lambda>n. ''id-'' @ n) (name ([?A] ! 0))"
    "gid ([?A, ?B] ! 1) = (\<lambda>n. ''id-'' @ n) (name ([?A, ?B] ! 1))"
    by (simp_all add: g)
  have a7: "inj_on (\<lambda>n. ''id-'' @ n) {name ([?A] ! 0), name ([?A, ?B] ! 1)}"
    by (simp add: inj_on_def)
  note c7 = C7_loadAll_reloadProvider [OF a1 a2 a4(1,2) a3 a4(3,4) a5 a6 a7, of 0]
  from c7 obtain st' where 1: "loadAll (Suc 0) st_two = Some st'"
    "length (rootGroups st') = 2" "length (root st') = 2"
    "root st' = [(gid ([?A] ! 0), 0), (gid ([?A, ?B] ! 1), 1)]"
    by blast
  have b1: "distinct (map fst (storageMap st_two_loaded))"
    and b2: "map_of (storageProvider st_two_loaded) ''statestorage'' = Some prov_a"
    and b3: "pid prov_a = ''statestorage''"
    and b4: "providerLoadRootNodes prov_a (heap st_two_loaded) = ([2], [?A, ?B, ?A])"
    and b5: "map_of (storageMap st_two_loaded) ''id-b'' = Some ''projectstorage''"
    and b6: "map_of (root st_two_loaded) ''id-b'' = Some 1"
      "map_of (rootGroups st_two_loaded) ''id-b'' = Some 1"
    by (simp_all add: st_two_loaded_def prov_a_def)
  have b7: "childGroups ([?A, ?B, ?A] ! 2) = []" "parentGroup ([?A, ?B, ?A] ! 2) = None"
    "gid ([?A, ?B, ?A] ! 2) = ''id-a''"
    by (simp_all add: g)
  from c7 b1 b2 b3 b4 b7(1,2)
  have "\<exists>st'. reloadProvider (Suc 0) st_two_loaded ''statestorage'' = Some st' \<and>
      heap st' = [?A, ?B, ?A] \<and>
      (\<forall>k. k \<noteq> gid ([?A, ?B, ?A] ! 2) \<longrightarrow>
             (map_of (storageMap st_two_loaded) k \<noteq> Some ''statestorage'' \<longrightarrow>
                map_of (root st') k = map_of (root st_two_loaded) k \<and>
                map_of (rootGroups st') k = map_of (rootGroups st_two_loaded) k \<and>
                map_of (storageMap st') k = map_of (storageMap st_two_loaded) k) \<and>
             (map_of (storageMap st_two_loaded) k = Some ''statestorage'' \<longrightarrow>
                map_of (root st') k = None \<and> map_of (rootGroups st') k = None \<and>
                map_of (storageMap st') k = None)) \<and>
          map_of (root st') (gid ([?A, ?B, ?A] ! 2)) = Some 2 \<and>
          map_of (rootGroups st') (gid ([?A, ?B, ?A] ! 2)) = Some 2 \<and>
          map_of (storageMap st') (gid ([?A, ?B, ?A] ! 2)) = Some ''statestorage''"
    by blast
  then obtain st'' where 2: "reloadProvider (Suc 0) st_two_loaded ''statestorage'' = Some st''"
    "heap st'' = [?A, ?B, ?A]"
    "\<forall>k. k \<noteq> gid ([?A, ?B, ?A] ! 2) \<longrightarrow>
             (map_of (storageMap st_two_loaded) k \<noteq> Some ''statestorage'' \<longrightarrow>
                map_of (root st'') k = map_of (root st_two_loaded) k \<and>
                map_of (rootGroups st'') k = map_of (rootGroups st_two_loaded) k \<and>
                map_of (storageMap st'') k = map_of (storageMap st_two_loaded) k)"
    "map_of (root st'') (gid ([?A, ?B, ?A] ! 2)) = Some 2"
    "map_of (storageMap st'') (gid ([?A, ?B, ?A] ! 2)) = Some ''statestorage''"
    by blast
  from 2(3) [rule_format, of "''id-b''"] b5 b6 b7(3)
  have 3: "map_of (root st'') ''id-b'' = Some 1" "map_of (rootGroups st'') ''id-b'' = Some 1"
    "map_of (storageMap st'') ''id-b'' = Some ''projectstorage''"
    by simp_all
  have 4: "heap st'' ! 1 = ?B" by (simp add: 2(2))
  have 5: "map_of (root st'') ''id-a'' = Some 2" "map_of (storageMap st'') ''id-a'' = Some ''statestorage''"
    using 2(4,5) by (simp_all add: g)
  have 6: "root st' = [(''id-a'', 0), (''id-b'', 1)]"
    using 1(4) by (simp add: g)
  have e1: "\<exists>st'. loadAll 1 st_two = Some st' \<and> length (rootGroups st') = 2 \<and>
      length (root st') = 2 \<and> root st' = [(''id-a'', 0), (''id-b'', 1)]"
    using 1 6 by auto
  have e2: "\<exists>st'. reloadProvider 1 st_two_loaded ''statestorage'' = Some st' \<and>
      map_of (root st') ''id-b'' = Some 1 \<and> map_of (rootGroups st') ''id-b'' = Some 1 \<and>
      map_of (storageMap st') ''id-b'' = Some ''projectstorage'' \<and>
      heap st' ! 1 = grp_named ''id-b'' ''b'' \<and>
      map_of (root st') ''id-a'' = Some 2 \<and> map_of (storageMap st') ''id-a'' = Some ''statestorage''"
    using 2(1) 3 4 5 by auto
  show ?thesis
    using a1 a2 a3 e1 b2 b5 e2 by blast
qed

section \<open>GroupManager: renaming a group\<close>

lemma rename_children_loop:
  fixes k :: heap
  assumes len: "length k = Suc n" and src: "src < n"
    and kids: "childGroups (k ! src) = cs2"
    and dkids: "childGroups (k ! n) = cs1"
    and ids: "distinct (map (\<lambda>c. gid (k ! c)) (cs1 @ cs2))"
    and par: "\<forall>c\<in>set cs2. c < n \<and> c \<noteq> src \<and> parentGroup (k ! c) = Some src"
  shows "length (fold (\<lambda>c h. addChildGroup h n c) cs2 k) = Suc n \<and>
       childGroups (fold (\<lambda>c h. addChildGroup h n c) cs2 k ! src) = [] \<and>
       childGroups (fold (\<lambda>c h. addChildGroup h n c) cs2 k ! n) = cs1 @ cs2 \<and>
       (\<forall>c\<in>set cs2. parentGroup (fold (\<lambda>c h. addChildGroup h n c) cs2 k ! c) = Some n) \<and>
       (\<forall>x. x \<notin> set cs2 \<longrightarrow>
          parentGroup (fold (\<lambda>c h. addChildGroup h n c) cs2 k ! x) = parentGroup (k ! x)) \<and>
       (\<forall>x. x \<noteq> src \<longrightarrow> x \<noteq> n \<longrightarrow>
          childGroups (fold (\<lambda>c h. addChildGroup h n c) cs2 k ! x) = childGroups (k ! x)) \<and>
       (\<forall>x. sameData (k ! x) (fold (\<lambda>c h. addChildGroup h n c) cs2 k ! x))"
  using assms
proof (induction cs2 arbitrary: k cs1)
  case Nil
  then show ?case by simp
next
  case (Cons c cs2)
  let ?k1 = "addChildGroup k n c"
  let ?k' = "fold (\<lambda>c h. addChildGroup h n c) cs2 ?k1"
  from Cons.prems have c: "c < n" "c \<noteq> src" "parentGroup (k ! c) = Some src"
    by simp_all
  have "gid (k ! c) \<notin> (\<lambda>c. gid (k ! c)) ` set cs1"
    using Cons.prems(5) by auto
  then have "\<forall>v\<in>set cs1. gid (k ! v) \<noteq> gid (k ! c)"
    by (metis imageI)
  then have nc: "\<not> childGroupContains k n c"
    by (simp add: childGroupContains_def list_ex_iff Cons.prems(4))
  have idx: "findIndex (\<lambda>item. gid (k ! item) = gid (k ! c)) (childGroups (k ! src)) = Some 0"
    by (simp add: Cons.prems(3))
  have k1: "?k1 = k[src := (k ! src)\<lparr>childGroups := cs2\<rparr>,
       n := (k ! n)\<lparr>childGroups := cs1 @ [c]\<rparr>,
       c := (k ! c)\<lparr>parentGroup := Some n\<rparr>]"
    using addChildGroup_move [OF nc c(3) idx] c(1,2) Cons.prems(1,2)
    by (simp add: splice1_def Cons.prems(3,4))
  have l1: "length ?k1 = Suc n" by (simp add: Cons.prems(1))
  have s1: "childGroups (?k1 ! src) = cs2"
    using c Cons.prems(1,2) by (simp add: k1)
  have d1: "childGroups (?k1 ! n) = (cs1 @ [c])"
    using c Cons.prems(1,2) by (simp add: k1)
  have i1: "distinct (map (\<lambda>c. gid (?k1 ! c)) ((cs1 @ [c]) @ cs2))"
    using Cons.prems(5) by simp
  have cn: "c \<notin> set cs2"
    using Cons.prems(5) by auto
  have p1: "\<forall>c'\<in>set cs2. c' < n \<and> c' \<noteq> src \<and> parentGroup (?k1 ! c') = Some src"
  proof
    fix c' assume m: "c' \<in> set cs2"
    with cn have "c' \<noteq> c" by auto
    moreover from m Cons.prems(6) have "c' < n" "c' \<noteq> src" "parentGroup (k ! c') = Some src"
      by simp_all
    ultimately show "c' < n \<and> c' \<noteq> src \<and> parentGroup (?k1 ! c') = Some src"
      using Cons.prems(1,2) by (simp add: k1 nth_list_update_gen)
  qed
  note IH = Cons.IH [OF l1 Cons.prems(2) s1 d1 i1 p1]
  have pc: "parentGroup (?k1 ! c) = Some n"
    using c Cons.prems(1) by (simp add: k1)
  have po: "x \<noteq> c \<Longrightarrow> parentGroup (?k1 ! x) = parentGroup (k ! x)" for x
    by (simp add: k1 nth_list_update_gen)
  have co: "x \<noteq> src \<Longrightarrow> x \<noteq> n \<Longrightarrow> childGroups (?k1 ! x) = childGroups (k ! x)" for x
    by (simp add: k1 nth_list_update_gen)
  have sd: "sameData (k ! x) (?k' ! x)" for x
    using sameData_addChildGroup [of k x n c] IH by (blast intro: sameData_trans)
  have "\<forall>c'\<in>set (c # cs2). parentGroup (?k' ! c') = Some n"
    using IH cn pc by auto
  moreover have "\<forall>x. x \<notin> set (c # cs2) \<longrightarrow> parentGroup (?k' ! x) = parentGroup (k ! x)"
    using IH po by auto
  moreover have "\<forall>x. x \<noteq> src \<longrightarrow> x \<noteq> n \<longrightarrow> childGroups (?k' ! x) = childGroups (k ! x)"
    using IH co by auto
  ultimately show ?case
    using IH sd by simp
qed

lemma findIndex_cong:
  "(\<And>x. x \<in> set xs \<Longrightarrow> P x = Q x) \<Longrightarrow> findIndex P xs = findIndex Q xs"
  by (induction xs) simp_all

lemma findIndex_distinct_member:
  "distinct xs \<Longrightarrow> x \<in> set xs \<Longrightarrow>
   \<exists>j. findIndex (\<lambda>y. y = x) xs = Some j \<and> set (splice1 j xs) = set xs - {x}"
proof (induction xs)
  case Nil
  then show ?case by simp
next
  case (Cons a xs)
  show ?case
  proof (cases "a = x")
    case True
    with Cons.prems show ?thesis by (simp add: splice1_def)
  next
    case False
    with Cons.prems have "distinct xs" "x \<in> set xs" by simp_all
    from Cons.IH [OF this] obtain j where j: "findIndex (\<lambda>y. y = x) xs = Some j"
      "set (splice1 j xs) = set xs - {x}" by blast
    have "findIndex (\<lambda>y. y = x) (a # xs) = Some (Suc j)"
      using False j(1) by simp
    moreover have "set (splice1 (Suc j) (a # xs)) = set (a # xs) - {x}"
      using False j(2) by (auto simp: splice1_def)
    ultimately show ?thesis by blast
  qed
qed

lemma renamedHeap_props:
  assumes src: "src < length h"
    and res: "distinct (map fsPath (resources (h ! src)))"
    and ids: "distinct (map (\<lambda>c. gid (h ! c)) (childGroups (h ! src)))"
    and kids: "\<forall>c\<in>set (childGroups (h ! src)). c < length h \<and> c \<noteq> src \<and>
                 parentGroup (h ! c) = Some src"
  shows "length (renamedHeap h src newId nm) = Suc (length h)"
    and "childGroups (renamedHeap h src newId nm ! src) = []"
    and "childGroups (renamedHeap h src newId nm ! length h) = childGroups (h ! src)"
    and "\<forall>c\<in>set (childGroups (h ! src)).
           parentGroup (renamedHeap h src newId nm ! c) = Some (length h)"
    and "parentGroup (renamedHeap h src newId nm ! src) = parentGroup (h ! src)"
    and "parentGroup (renamedHeap h src newId nm ! length h) = None"
    and "\<forall>x. x < length h \<longrightarrow> x \<notin> set (childGroups (h ! src)) \<longrightarrow>
           parentGroup (renamedHeap h src newId nm ! x) = parentGroup (h ! x)"
    and "\<forall>x. x < length h \<longrightarrow> x \<noteq> src \<longrightarrow>
           childGroups (renamedHeap h src newId nm ! x) = childGroups (h ! x)"
    and "\<forall>x. x < length h \<longrightarrow> sameData (h ! x) (renamedHeap h src newId nm ! x)"
    and "gid (renamedHeap h src newId nm ! length h) = newId"
    and "name (renamedHeap h src newId nm ! length h) = nm"
    and "readonly (renamedHeap h src newId nm ! length h) = readonly (h ! src)"
    and "resources (renamedHeap h src newId nm ! length h) = resources (h ! src)"
proof -
  let ?n = "length h"
  let ?cs = "childGroups (h ! src)"
  define D0 where "D0 = (newGroup newId)\<lparr>name := nm, readonly := readonly (h ! src)\<rparr>"
  define D1 where "D1 = D0\<lparr>resources := resources (h ! src)\<rparr>"
  define h1 where "h1 = h @ [D1]"
  have r0: "resources D0 = []" by (simp add: D0_def newGroup_def)
  have "fold (\<lambda>u g. addResource g u) (resources (h ! src)) D0
        = D0\<lparr>resources := resources D0 @ resources (h ! src)\<rparr>"
    by (rule fold_addResource_distinct) (simp add: r0 res)
  then have fr: "fold (\<lambda>u g. addResource g u) (resources (h ! src)) D0 = D1"
    by (simp add: r0 D1_def)
  have "fold (\<lambda>uri h'. h'[?n := addResource (h' ! ?n) uri]) (resources (h ! src)) (h @ [D0])
        = (h @ [D0])[?n := fold (\<lambda>u g. addResource g u) (resources (h ! src)) ((h @ [D0]) ! ?n)]"
    by (rule fold_update_at) simp
  then have f1: "fold (\<lambda>uri h'. h'[?n := addResource (h' ! ?n) uri]) (resources (h ! src)) (h @ [D0])
        = h1"
    by (simp add: fr h1_def)
  have old: "x < ?n \<Longrightarrow> h1 ! x = h ! x" for x
    by (simp add: h1_def nth_append)
  have new: "h1 ! ?n = D1" by (simp add: h1_def)
  have rh: "renamedHeap h src newId nm = fold (\<lambda>c h'. addChildGroup h' ?n c) ?cs h1"
    using src by (simp add: renamedHeap_def Let_def D0_def [symmetric] nth_append f1 old)
  have l1: "length h1 = Suc ?n" by (simp add: h1_def)
  have k1: "childGroups (h1 ! src) = ?cs" using src by (simp add: old)
  have d1: "childGroups (h1 ! ?n) = []" by (simp add: new D1_def D0_def newGroup_def)
  have me: "map (\<lambda>c. gid (h1 ! c)) ?cs = map (\<lambda>c. gid (h ! c)) ?cs"
  proof (rule map_cong)
    fix c assume "c \<in> set ?cs"
    with kids have "c < ?n" by simp
    then show "gid (h1 ! c) = gid (h ! c)" by (simp add: old)
  qed simp
  have i1: "distinct (map (\<lambda>c. gid (h1 ! c)) ([] @ ?cs))"
    using ids by (simp only: me append_Nil)
  have p1: "\<forall>c\<in>set ?cs. c < ?n \<and> c \<noteq> src \<and> parentGroup (h1 ! c) = Some src"
    using kids by (simp add: old)
  note L = rename_children_loop [OF l1 src k1 d1 i1 p1, folded rh]
  have srcn: "src \<notin> set ?cs" using kids by auto
  have nn: "?n \<notin> set ?cs" using kids by auto
  have sdn: "sameData (h1 ! ?n) (renamedHeap h src newId nm ! ?n)" using L by blast
  show "length (renamedHeap h src newId nm) = Suc (length h)" using L by blast
  show "childGroups (renamedHeap h src newId nm ! src) = []" using L by blast
  show "childGroups (renamedHeap h src newId nm ! length h) = childGroups (h ! src)"
    using L by simp
  show "\<forall>c\<in>set ?cs. parentGroup (renamedHeap h src newId nm ! c) = Some (length h)"
    using L by blast
  have pf: "x \<notin> set ?cs \<Longrightarrow> parentGroup (renamedHeap h src newId nm ! x) = parentGroup (h1 ! x)"
    for x using L by blast
  show "parentGroup (renamedHeap h src newId nm ! src) = parentGroup (h ! src)"
    using pf [OF srcn] src by (simp add: old)
  show "parentGroup (renamedHeap h src newId nm ! length h) = None"
    using pf [OF nn] by (simp add: new D1_def D0_def newGroup_def)
  show "\<forall>x. x < length h \<longrightarrow> x \<notin> set ?cs \<longrightarrow>
           parentGroup (renamedHeap h src newId nm ! x) = parentGroup (h ! x)"
    using pf by (simp add: old)
  have cf: "x \<noteq> src \<Longrightarrow> x \<noteq> ?n \<Longrightarrow>
      childGroups (renamedHeap h src newId nm ! x) = childGroups (h1 ! x)" for x
    using L by blast
  show "\<forall>x. x < length h \<longrightarrow> x \<noteq> src \<longrightarrow>
           childGroups (renamedHeap h src newId nm ! x) = childGroups (h ! x)"
    using cf by (simp add: old)
  have sd: "sameData (h1 ! x) (renamedHeap h src newId nm ! x)" for x
    using L by blast
  show "\<forall>x. x < length h \<longrightarrow> sameData (h ! x) (renamedHeap h src newId nm ! x)"
  proof (intro allI impI)
    fix x assume "x < length h"
    with sd [of x] show "sameData (h ! x) (renamedHeap h src newId nm ! x)"
      by (simp add: old)
  qed
  show "gid (renamedHeap h src newId nm ! length h) = newId"
    using sdn by (simp add: sameData_def new D1_def D0_def newGroup_def)
  show "name (renamedHeap h src newId nm ! length h) = nm"
    using sdn by (simp add: sameData_def new D1_def D0_def newGroup_def)
  show "readonly (renamedHeap h src newId nm ! length h) = readonly (h ! src)"
    using sdn by (simp add: sameData_def new D1_def D0_def newGroup_def)
  show "resources (renamedHeap h src newId nm ! length h) = resources (h ! src)"
    using sdn by (simp add: sameData_def new D1_def D0_def newGroup_def)
qed

lemma renameGroup_root:
  assumes "providerOf st i = Some prov" and "map_of (root st) i = Some src"
    and "parentGroup (renamedHeap (heap st) src (mk nm) nm ! src) = None"
  shows "heap (renameGroup mk st i nm) = renamedHeap (heap st) src (mk nm) nm"
    and "root (renameGroup mk st i nm) =
           AList.update (mk nm) (length (heap st)) (AList.delete i (root st))"
    and "rootGroups (renameGroup mk st i nm) =
           AList.update (mk nm) (length (heap st)) (AList.delete i (rootGroups st))"
    and "storageMap (renameGroup mk st i nm) =
           AList.update (mk nm) (pid prov) (AList.delete i (storageMap st))"
proof -
  define h2 where "h2 = renamedHeap (heap st) src (mk nm) nm"
  have h2: "fold (\<lambda>childGroup h. addChildGroup h (length (heap st)) childGroup)
       (childGroups (fold (\<lambda>uri h. h[length (heap st) := addResource (h ! length (heap st)) uri])
            (resources ((heap st @ [(newGroup (mk nm))\<lparr>name := nm,
                      readonly := readonly (heap st ! src)\<rparr>]) ! src))
            (heap st @ [(newGroup (mk nm))\<lparr>name := nm,
                      readonly := readonly (heap st ! src)\<rparr>]) ! src))
       (fold (\<lambda>uri h. h[length (heap st) := addResource (h ! length (heap st)) uri])
            (resources ((heap st @ [(newGroup (mk nm))\<lparr>name := nm,
                      readonly := readonly (heap st ! src)\<rparr>]) ! src))
            (heap st @ [(newGroup (mk nm))\<lparr>name := nm,
                      readonly := readonly (heap st ! src)\<rparr>])) = h2"
    by (simp add: h2_def renamedHeap_def Let_def)
  have p: "parentGroup (h2 ! src) = None" using assms(3) by (simp add: h2_def)
  show "heap (renameGroup mk st i nm) = renamedHeap (heap st) src (mk nm) nm"
    unfolding h2_def [symmetric]
    by (simp add: renameGroup_def assms(1,2) Let_def h2 p saveGroup_fields)
  show "root (renameGroup mk st i nm) =
           AList.update (mk nm) (length (heap st)) (AList.delete i (root st))"
    by (simp add: renameGroup_def assms(1,2) Let_def h2 p saveGroup_fields)
  show "rootGroups (renameGroup mk st i nm) =
           AList.update (mk nm) (length (heap st)) (AList.delete i (rootGroups st))"
    by (simp add: renameGroup_def assms(1,2) Let_def h2 p saveGroup_fields)
  show "storageMap (renameGroup mk st i nm) =
           AList.update (mk nm) (pid prov) (AList.delete i (storageMap st))"
    by (simp add: renameGroup_def assms(1,2) Let_def h2 p saveGroup_fields)
qed

lemma renameGroup_nested:
  assumes "providerOf st i = Some prov" and "map_of (root st) i = Some src"
    and "parentGroup (renamedHeap (heap st) src (mk nm) nm ! src) = Some p"
  shows "heap (renameGroup mk st i nm) = addChildGroup
            (removeChildGroup (renamedHeap (heap st) src (mk nm) nm) p src) p (length (heap st))"
    and "root (renameGroup mk st i nm) =
           AList.update (mk nm) (length (heap st)) (AList.delete i (root st))"
    and "rootGroups (renameGroup mk st i nm) = rootGroups st"
    and "storageMap (renameGroup mk st i nm) =
           AList.update (mk nm) (pid prov) (AList.delete i (storageMap st))"
proof -
  define h2 where "h2 = renamedHeap (heap st) src (mk nm) nm"
  have h2: "fold (\<lambda>childGroup h. addChildGroup h (length (heap st)) childGroup)
       (childGroups (fold (\<lambda>uri h. h[length (heap st) := addResource (h ! length (heap st)) uri])
            (resources ((heap st @ [(newGroup (mk nm))\<lparr>name := nm,
                      readonly := readonly (heap st ! src)\<rparr>]) ! src))
            (heap st @ [(newGroup (mk nm))\<lparr>name := nm,
                      readonly := readonly (heap st ! src)\<rparr>]) ! src))
       (fold (\<lambda>uri h. h[length (heap st) := addResource (h ! length (heap st)) uri])
            (resources ((heap st @ [(newGroup (mk nm))\<lparr>name := nm,
                      readonly := readonly (heap st ! src)\<rparr>]) ! src))
            (heap st @ [(newGroup (mk nm))\<lparr>name := nm,
                      readonly := readonly (heap st ! src)\<rparr>])) = h2"
    by (simp add: h2_def renamedHeap_def Let_def)
  have p: "parentGroup (h2 ! src) = Some p" using assms(3) by (simp add: h2_def)
  show "heap (renameGroup mk st i nm) = addChildGroup
            (removeChildGroup (renamedHeap (heap st) src (mk nm) nm) p src) p (length (heap st))"
    unfolding h2_def [symmetric]
    by (simp add: renameGroup_def assms(1,2) Let_def h2 p saveGroup_fields)
  show "root (renameGroup mk st i nm) =
           AList.update (mk nm) (length (heap st)) (AList.delete i (root st))"
    by (simp add: renameGroup_def assms(1,2) Let_def h2 p saveGroup_fields)
  show "rootGroups (renameGroup mk st i nm) = rootGroups st"
    by (simp add: renameGroup_def assms(1,2) Let_def h2 p saveGroup_fields)
  show "storageMap (renameGroup mk st i nm) =
           AList.update (mk nm) (pid prov) (AList.delete i (storageMap st))"
    by (simp add: renameGroup_def assms(1,2) Let_def h2 p saveGroup_fields)
qed

text \<open>
  Claim C1: \<open>renameGroup(g.id, newName)\<close> for a group \<open>g\<close> (the object \<open>src\<close>)
  that is registered in the flattened map under its id and routed to a registered
  provider, and a new name whose derived id is not registered. The state satisfies the
  invariants of the data model around \<open>g\<close>: the resources of \<open>g\<close> are deduplicated
  by path; its children have distinct ids and point back to \<open>g\<close>; and its parent,
  if any, is another group that is not one of the children of \<open>g\<close>, lists \<open>g\<close>
  once, and has all its children registered under their ids. Then, with \<open>d\<close> the
  new object (allocated at the end of the store): \<open>root.get(g.id)\<close> is none;
  \<open>root.get(makeGroupId(newName))\<close> is \<open>d\<close>, named \<open>newName\<close>, with the id
  derived from the name, the readonly flag and the resources of \<open>g\<close>; the children of
  \<open>d\<close> are the former children of \<open>g\<close>, and each of them has \<open>d\<close> as its parent;
  \<open>d\<close> has the parent \<open>g\<close> had, and that parent lists \<open>d\<close> and no longer \<open>g\<close>;
  if \<open>g\<close> was a root, \<open>d\<close> is in the root set under the new id and the old id
  is gone from it.
\<close>

theorem C1_renameGroup:
  fixes st :: GroupManager
  assumes i: "i = gid (heap st ! src)"
    and reg: "map_of (root st) i = Some src" "src < length (heap st)"
    and prov: "providerOf st i = Some prov"
    and new: "map_of (root st) (mk nm) = None"
    and res: "distinct (map fsPath (resources (heap st ! src)))"
    and ids: "distinct (map (\<lambda>c. gid (heap st ! c)) (childGroups (heap st ! src)))"
    and kids: "\<forall>c\<in>set (childGroups (heap st ! src)).
                 c < length (heap st) \<and> parentGroup (heap st ! c) = Some src"
    and par: "\<forall>p. parentGroup (heap st ! src) = Some p \<longrightarrow>
         p < length (heap st) \<and> p \<noteq> src \<and> p \<notin> set (childGroups (heap st ! src)) \<and>
         src \<in> set (childGroups (heap st ! p)) \<and> distinct (childGroups (heap st ! p)) \<and>
         (\<forall>c\<in>set (childGroups (heap st ! p)).
            c < length (heap st) \<and> map_of (root st) (gid (heap st ! c)) = Some c)"
  shows "map_of (root (renameGroup mk st i nm)) i = None \<and>
    map_of (root (renameGroup mk st i nm)) (mk nm) = Some (length (heap st)) \<and>
    gid (heap (renameGroup mk st i nm) ! length (heap st)) = mk nm \<and>
    name (heap (renameGroup mk st i nm) ! length (heap st)) = nm \<and>
    readonly (heap (renameGroup mk st i nm) ! length (heap st)) = readonly (heap st ! src) \<and>
    resources (heap (renameGroup mk st i nm) ! length (heap st)) = resources (heap st ! src) \<and>
    childGroups (heap (renameGroup mk st i nm) ! length (heap st)) = childGroups (heap st ! src) \<and>
    (\<forall>c\<in>set (childGroups (heap st ! src)).
       parentGroup (heap (renameGroup mk st i nm) ! c) = Some (length (heap st))) \<and>
    parentGroup (heap (renameGroup mk st i nm) ! length (heap st)) = parentGroup (heap st ! src) \<and>
    (\<forall>p. parentGroup (heap st ! src) = Some p \<longrightarrow>
       length (heap st) \<in> set (childGroups (heap (renameGroup mk st i nm) ! p)) \<and>
       src \<notin> set (childGroups (heap (renameGroup mk st i nm) ! p)) \<and>
       set (childGroups (heap (renameGroup mk st i nm) ! p)) =
         insert (length (heap st)) (set (childGroups (heap st ! p)) - {src})) \<and>
    (parentGroup (heap st ! src) = None \<longrightarrow>
       map_of (rootGroups (renameGroup mk st i nm)) (mk nm) = Some (length (heap st)) \<and>
       map_of (rootGroups (renameGroup mk st i nm)) i = None)"
proof -
  let ?h = "heap st" and ?n = "length (heap st)"
  let ?cs = "childGroups (heap st ! src)"
  let ?st' = "renameGroup mk st i nm"
  define h2 where "h2 = renamedHeap ?h src (mk nm) nm"
  have ne: "i \<noteq> mk nm" using reg(1) new by auto
  have srcn: "src \<notin> set ?cs"
  proof
    assume "src \<in> set ?cs"
    with kids have "parentGroup (?h ! src) = Some src" by simp
    with par show False by blast
  qed
  have kids': "\<forall>c\<in>set ?cs. c < ?n \<and> c \<noteq> src \<and> parentGroup (?h ! c) = Some src"
    using kids srcn by auto
  note P = renamedHeap_props [OF reg(2) res ids kids', of "mk nm" nm, folded h2_def]
  have root': "root ?st' = AList.update (mk nm) ?n (AList.delete i (root st))"
  proof (cases "parentGroup (h2 ! src)")
    case None
    then show ?thesis using renameGroup_root(2) [where mk = mk and nm = nm, OF prov reg(1)] by (simp add: h2_def)
  next
    case (Some p)
    then show ?thesis using renameGroup_nested(2) [where mk = mk and nm = nm and p = p, OF prov reg(1)] by (simp add: h2_def)
  qed
  have r1: "map_of (root ?st') i = None"
    using ne by (simp add: root' update_conv' delete_conv')
  have r2: "map_of (root ?st') (mk nm) = Some ?n"
    by (simp add: root' update_conv')
  have sd2: "sameData (?h ! x) (h2 ! x)" if "x < ?n" for x
    using P(9) that by blast
  have gid2: "gid (h2 ! x) = gid (?h ! x)" if "x < ?n" for x
    using sd2 [OF that] by (simp add: sameData_def)
  show ?thesis
  proof (cases "parentGroup (?h ! src)")
    case None
    then have "parentGroup (h2 ! src) = None" by (simp add: P(5))
    then have pn: "parentGroup (renamedHeap ?h src (mk nm) nm ! src) = None"
      by (simp add: h2_def)
    have hp: "heap ?st' = h2"
      using renameGroup_root(1) [where mk = mk and nm = nm, OF prov reg(1) pn] by (simp add: h2_def)
    have rg: "rootGroups ?st' = AList.update (mk nm) ?n (AList.delete i (rootGroups st))"
      using renameGroup_root(3) [where mk = mk and nm = nm, OF prov reg(1) pn] .
    have g1: "map_of (rootGroups ?st') (mk nm) = Some ?n"
      by (simp add: rg update_conv')
    have g2: "map_of (rootGroups ?st') i = None"
      using ne by (simp add: rg update_conv' delete_conv')
    show ?thesis
      using r1 r2 g1 g2 None P(3,4,6,10,11,12,13) by (simp add: hp)
  next
    case (Some p)
    then have pp: "parentGroup (renamedHeap ?h src (mk nm) nm ! src) = Some p"
      by (simp add: P(5) h2_def [symmetric])
    let ?ps = "childGroups (?h ! p)"
    note pall = par [THEN spec, THEN mp, OF Some]
    then have p: "p < ?n" "p \<noteq> src" "p \<notin> set ?cs" "src \<in> set ?ps" "distinct ?ps"
      and sib: "\<forall>c\<in>set ?ps. c < ?n \<and> map_of (root st) (gid (?h ! c)) = Some c"
      by simp_all
    have l2: "length h2 = Suc ?n" by (rule P(1))
    have ps2: "childGroups (h2 ! p) = ?ps" using P(8) p(1,2) by blast
    have "findIndex (\<lambda>item. gid (h2 ! item) = gid (h2 ! src)) ?ps
        = findIndex (\<lambda>item. item = src) ?ps"
    proof (rule findIndex_cong)
      fix x assume x: "x \<in> set ?ps"
      with sib have xl: "x < ?n" and xr: "map_of (root st) (gid (?h ! x)) = Some x" by simp_all
      from sib p(4) have sr: "map_of (root st) (gid (?h ! src)) = Some src" by simp
      have "x = src" if "gid (?h ! x) = gid (?h ! src)"
      proof -
        from xr that have "map_of (root st) (gid (?h ! src)) = Some x" by simp
        with sr show ?thesis by simp
      qed
      then have "(gid (?h ! x) = gid (?h ! src)) = (x = src)" by blast
      then show "(gid (h2 ! x) = gid (h2 ! src)) = (x = src)"
        by (simp only: gid2 [OF xl] gid2 [OF reg(2)])
    qed
    moreover from findIndex_distinct_member [OF p(5) p(4)]
    obtain j where j: "findIndex (\<lambda>y. y = src) ?ps = Some j" "set (splice1 j ?ps) = set ?ps - {src}"
      by blast
    ultimately have idx: "findIndex (\<lambda>item. gid (h2 ! item) = gid (h2 ! src)) ?ps = Some j"
      by simp
    define h3 where "h3 = removeChildGroup h2 p src"
    have h3: "h3 = h2[p := (h2 ! p)\<lparr>childGroups := splice1 j ?ps\<rparr>,
                     src := (h2 ! src)\<lparr>parentGroup := None\<rparr>]"
      using p(1,2) l2 by (simp add: h3_def removeChildGroup_def idx Let_def ps2)
    have l3: "length h3 = Suc ?n" by (simp add: h3_def l2)
    have c3p: "childGroups (h3 ! p) = splice1 j ?ps"
      using p(1,2) l2 by (simp add: h3)
    have c3o: "x \<noteq> p \<Longrightarrow> childGroups (h3 ! x) = childGroups (h2 ! x)" for x
      by (simp add: h3 nth_list_update_gen)
    have p3o: "x \<noteq> src \<Longrightarrow> parentGroup (h3 ! x) = parentGroup (h2 ! x)" for x
      by (simp add: h3 nth_list_update_gen)
    have pn3: "parentGroup (h3 ! ?n) = None"
      using reg(2) P(6) by (simp add: p3o)
    have "\<forall>v\<in>set (splice1 j ?ps). gid (h3 ! v) \<noteq> gid (h3 ! ?n)"
    proof
      fix v assume "v \<in> set (splice1 j ?ps)"
      with j(2) have v: "v \<in> set ?ps" by simp
      with sib have vl: "v < ?n" and vr: "map_of (root st) (gid (?h ! v)) = Some v" by simp_all
      from vr new have "gid (?h ! v) \<noteq> mk nm" by auto
      then show "gid (h3 ! v) \<noteq> gid (h3 ! ?n)"
        by (simp add: h3_def gid2 [OF vl] P(10))
    qed
    then have nc: "\<not> childGroupContains h3 p ?n"
      by (simp add: childGroupContains_def list_ex_iff c3p)
    define h5 where "h5 = addChildGroup h3 p ?n"
    have "p \<noteq> ?n" using p(1) by simp
    from addChildGroup_fresh [OF nc pn3 this] p(1) l3
    have h5: "h5 = h3[p := (h3 ! p)\<lparr>childGroups := splice1 j ?ps @ [?n]\<rparr>,
                     ?n := (h3 ! ?n)\<lparr>parentGroup := Some p\<rparr>]"
      by (simp add: h5_def c3p)
    have hp: "heap ?st' = h5"
      using renameGroup_nested(1) [where mk = mk and nm = nm, OF prov reg(1) pp] by (simp add: h5_def h3_def h2_def)
    have c5p: "childGroups (h5 ! p) = splice1 j ?ps @ [?n]"
      using p(1) l3 by (simp add: h5)
    have c5n: "childGroups (h5 ! ?n) = ?cs"
      using p(1) l3 P(3) by (simp add: h5 c3o)
    have p5n: "parentGroup (h5 ! ?n) = Some p"
      using l3 by (simp add: h5)
    have p5c: "\<forall>c\<in>set ?cs. parentGroup (h5 ! c) = Some ?n"
    proof
      fix c assume c: "c \<in> set ?cs"
      with kids' have "c < ?n" "c \<noteq> src" by simp_all
      then have "parentGroup (h5 ! c) = parentGroup (h2 ! c)"
        by (simp add: h5 nth_list_update_gen p3o)
      with P(4) c show "parentGroup (h5 ! c) = Some ?n" by simp
    qed
    have "sameData (h2 ! ?n) (h3 ! ?n)"
      unfolding h3_def by (rule sameData_removeChildGroup)
    moreover have "sameData (h3 ! ?n) (h5 ! ?n)"
      unfolding h5_def by (rule sameData_addChildGroup)
    ultimately have sd5: "sameData (h2 ! ?n) (h5 ! ?n)"
      by (rule sameData_trans)
    have d5: "gid (h5 ! ?n) = mk nm" "name (h5 ! ?n) = nm"
      "readonly (h5 ! ?n) = readonly (?h ! src)" "resources (h5 ! ?n) = resources (?h ! src)"
      using sd5 P(10,11,12,13) by (simp_all add: sameData_def)
    have s5: "set (childGroups (h5 ! p)) = insert ?n (set ?ps - {src})"
      by (simp add: c5p j(2))
    have "src \<noteq> ?n" using reg(2) by simp
    then have m5: "?n \<in> set (childGroups (h5 ! p))" "src \<notin> set (childGroups (h5 ! p))"
      by (simp_all add: s5)
    show ?thesis
      using r1 r2 Some d5 c5n p5c p5n s5 m5 by (simp add: hp)
  qed
qed

theorem C1_witness:
  "map_of (root st_three) ''id-a'' = Some 1 \<and> gid (heap st_three ! 1) = ''id-a'' \<and>
   providerOf st_three ''id-a'' = Some prov_state \<and>
   map_of (root st_three) ''id-n'' = None \<and>
   resources (heap st_three ! 1) = [uri_a, uri_b] \<and> childGroups (heap st_three ! 1) = [2] \<and>
   parentGroup (heap st_three ! 1) = Some 0 \<and> childGroups (heap st_three ! 0) = [1] \<and>
   length (heap st_three) = 4 \<and>
   map_of (root (renameGroup (\<lambda>n. ''id-'' @ n) st_three ''id-a'' ''n'')) ''id-a'' = None \<and>
   map_of (root (renameGroup (\<lambda>n. ''id-'' @ n) st_three ''id-a'' ''n'')) ''id-n'' = Some 4 \<and>
   name (heap (renameGroup (\<lambda>n. ''id-'' @ n) st_three ''id-a'' ''n'') ! 4) = ''n'' \<and>
   resources (heap (renameGroup (\<lambda>n. ''id-'' @ n) st_three ''id-a'' ''n'') ! 4) = [uri_a, uri_b] \<and>
   childGroups (heap (renameGroup (\<lambda>n. ''id-'' @ n) st_three ''id-a'' ''n'') ! 4) = [2] \<and>
   parentGroup (heap (renameGroup (\<lambda>n. ''id-'' @ n) st_three ''id-a'' ''n'') ! 2) = Some 4 \<and>
   parentGroup (heap (renameGroup (\<lambda>n. ''id-'' @ n) st_three ''id-a'' ''n'') ! 4) = Some 0 \<and>
   set (childGroups (heap (renameGroup (\<lambda>n. ''id-'' @ n) st_three ''id-a'' ''n'') ! 0)) = {4}"
proof -
  let ?mk = "\<lambda>n. ''id-'' @ n"
  have hp: "heap st_three ! Suc 0 = (grp_named ''id-a'' ''A'')\<lparr>resources := [uri_a, uri_b],
         childGroups := [2], parentGroup := Some 0\<rparr>"
    "heap st_three ! 0 = (grp_named ''id-g'' ''G'')\<lparr>childGroups := [1]\<rparr>"
    "heap st_three ! 2 = (grp_named ''id-b'' ''B'')\<lparr>parentGroup := Some 1\<rparr>"
    "length (heap st_three) = 4"
    "root st_three = [(''id-g'', 0), (''id-a'', 1), (''id-b'', 2), (''id-z'', 3)]"
    by (simp_all add: st_three_def)
  have f: "gid (heap st_three ! Suc 0) = ''id-a''"
    "resources (heap st_three ! Suc 0) = [uri_a, uri_b]"
    "childGroups (heap st_three ! Suc 0) = [2]" "parentGroup (heap st_three ! Suc 0) = Some 0"
    "childGroups (heap st_three ! 0) = [Suc 0]" "gid (heap st_three ! 2) = ''id-b''"
    "parentGroup (heap st_three ! 2) = Some (Suc 0)" "readonly (heap st_three ! Suc 0) = False"
    by (simp_all add: hp grp_named_def newGroup_def)
  have a1: "''id-a'' = gid (heap st_three ! 1)" by (simp add: f)
  have a2: "map_of (root st_three) ''id-a'' = Some 1" "1 < length (heap st_three)"
    by (simp_all add: hp)
  have a3: "providerOf st_three ''id-a'' = Some prov_state"
    by (simp add: providerOf_def st_three_def)
  have a4: "map_of (root st_three) (?mk ''n'') = None" by (simp add: hp)
  have a5: "distinct (map fsPath (resources (heap st_three ! 1)))"
    by (simp add: f uri_a_def uri_b_def)
  have a6: "distinct (map (\<lambda>c. gid (heap st_three ! c)) (childGroups (heap st_three ! 1)))"
    by (simp add: f)
  have a7: "\<forall>c\<in>set (childGroups (heap st_three ! 1)).
      c < length (heap st_three) \<and> parentGroup (heap st_three ! c) = Some 1"
    by (simp add: f hp(4))
  have a8: "\<forall>p. parentGroup (heap st_three ! 1) = Some p \<longrightarrow>
         p < length (heap st_three) \<and> p \<noteq> 1 \<and> p \<notin> set (childGroups (heap st_three ! 1)) \<and>
         1 \<in> set (childGroups (heap st_three ! p)) \<and> distinct (childGroups (heap st_three ! p)) \<and>
         (\<forall>c\<in>set (childGroups (heap st_three ! p)).
            c < length (heap st_three) \<and> map_of (root st_three) (gid (heap st_three ! c)) = Some c)"
    by (simp add: f hp(4,5))
  note c1 = C1_renameGroup [where mk = ?mk and nm = "''n''", OF a1 a2 a3 a4 a5 a6 a7 a8]
  have s: "set (childGroups (heap (renameGroup ?mk st_three ''id-a'' ''n'') ! 0)) = {4}"
    using c1 by (simp add: f hp(4))
  show ?thesis
    using c1 s a2(1) a3 by (simp add: f hp(4,5))
qed

section \<open>Cycles in the forest\<close>

lemma set_splice1_subset: "set (splice1 i xs) \<subseteq> set xs"
  unfolding splice1_def using set_take_subset [of i xs] set_drop_subset [of "Suc i" xs] by auto

lemma children_removeChildGroup:
  "set (childGroups (removeChildGroup h t c ! x)) \<subseteq> set (childGroups (h ! x))"
  by (auto simp: removeChildGroup_def Let_def nth_list_update_gen split: option.splits
      dest: set_splice1_subset [THEN subsetD])

lemma length_removeChildGroupById [simp]: "length (removeChildGroupById h t i) = length h"
  by (simp add: removeChildGroupById_def Let_def split: option.splits)

lemma children_removeChildGroupById:
  "set (childGroups (removeChildGroupById h t i ! x)) \<subseteq> set (childGroups (h ! x))"
  by (auto simp: removeChildGroupById_def Let_def nth_list_update_gen split: option.splits
      dest: set_splice1_subset [THEN subsetD])

lemma fold_clear_parent:
  "length (fold (\<lambda>c h'. h'[c := (h' ! c)\<lparr>parentGroup := None\<rparr>]) cs h) = length h \<and>
   childGroups (fold (\<lambda>c h'. h'[c := (h' ! c)\<lparr>parentGroup := None\<rparr>]) cs h ! x)
     = childGroups (h ! x)"
  by (induction cs arbitrary: h) (simp_all add: nth_list_update_gen)

lemma length_clearChildGroups [simp]: "length (clearChildGroups h t) = length h"
  by (simp add: clearChildGroups_def Let_def fold_clear_parent)

lemma children_clearChildGroups:
  "set (childGroups (clearChildGroups h t ! x)) \<subseteq> set (childGroups (h ! x))"
  by (simp add: clearChildGroups_def Let_def nth_list_update_gen fold_clear_parent)

lemma children_addChildGroup:
  "set (childGroups (addChildGroup h t c ! x)) \<subseteq>
     set (childGroups (h ! x)) \<union> (if x = t then {c} else {})"
proof (cases "childGroupContains h t c")
  case True
  then show ?thesis by (simp add: addChildGroup_def)
next
  case False
  define h1 where "h1 = (case parentGroup (h ! c) of
       Some p \<Rightarrow> removeChildGroup h p c | None \<Rightarrow> h)"
  have s1: "set (childGroups (h1 ! y)) \<subseteq> set (childGroups (h ! y))" for y
    using children_removeChildGroup by (simp add: h1_def split: option.splits)
  have "addChildGroup h t c =
      h1[t := (h1 ! t)\<lparr>childGroups := childGroups (h1 ! t) @ [c]\<rparr>,
         c := (h1[t := (h1 ! t)\<lparr>childGroups := childGroups (h1 ! t) @ [c]\<rparr>] ! c)
                \<lparr>parentGroup := Some t\<rparr>]"
    using False by (simp add: addChildGroup_def Let_def h1_def)
  then have "set (childGroups (addChildGroup h t c ! x)) \<subseteq>
      set (childGroups (h1 ! x)) \<union> (if x = t then {c} else {})"
    by (auto simp: nth_list_update_gen)
  with s1 [of x] show ?thesis by blast
qed

lemma childRel_subset:
  assumes "length h' = length h"
    and "\<And>x. set (childGroups (h' ! x)) \<subseteq> set (childGroups (h ! x))"
  shows "childRel h' \<subseteq> childRel h"
  using assms by (auto simp: childRel_def)

lemma childRel_addChildGroup:
  "childRel (addChildGroup h t c) \<subseteq> insert (t, c) (childRel h)"
proof
  fix e assume "e \<in> childRel (addChildGroup h t c)"
  then obtain p x where e: "e = (p, x)" "p < length h"
    "x \<in> set (childGroups (addChildGroup h t c ! p))"
    by (auto simp: childRel_def)
  from children_addChildGroup [of h t c p] e(3)
  have "x \<in> set (childGroups (h ! p)) \<or> (p = t \<and> x = c)"
    by (auto split: if_splits)
  then show "e \<in> insert (t, c) (childRel h)"
    using e by (auto simp: childRel_def)
qed

lemma validRefs_subset:
  assumes "validRefs h" and "length h' = length h"
    and "\<And>x. set (childGroups (h' ! x)) \<subseteq> set (childGroups (h ! x))"
  shows "validRefs h'"
  using assms unfolding validRefs_def by (metis subsetD)

lemma validRefs_addChildGroup:
  assumes "validRefs h" and "c < length h"
  shows "validRefs (addChildGroup h t c)"
  unfolding validRefs_def
proof (intro allI impI ballI)
  fix p x
  assume p: "p < length (addChildGroup h t c)"
    and x: "x \<in> set (childGroups (addChildGroup h t c ! p))"
  from children_addChildGroup [of h t c p] x
  have "x \<in> set (childGroups (h ! p)) \<or> x = c"
    by (auto split: if_splits)
  then show "x < length (addChildGroup h t c)"
    using assms p by (auto simp: validRefs_def)
qed

lemma op_preserves:
  assumes "validRefs h" and "acyclic (childRel h)" and "opGuarded h op"
  shows "validRefs (applyOp h op) \<and> acyclic (childRel (applyOp h op)) \<and>
         length (applyOp h op) = length h"
proof (cases op)
  case (AddChildGroup t c)
  with assms(3) have g: "t < length h" "c < length h" "(c, t) \<notin> (childRel h)\<^sup>*" by simp_all
  have "acyclic (insert (t, c) (childRel h))"
    using assms(2) g(3) by simp
  then have "acyclic (childRel (addChildGroup h t c))"
    using childRel_addChildGroup by (rule acyclic_subset)
  then show ?thesis
    using validRefs_addChildGroup [OF assms(1) g(2)] by (simp add: AddChildGroup)
next
  case (RemoveChildGroup t c)
  have "childRel (removeChildGroup h t c) \<subseteq> childRel h"
    by (rule childRel_subset) (simp_all add: children_removeChildGroup)
  with assms(2) have "acyclic (childRel (removeChildGroup h t c))"
    by (rule acyclic_subset)
  moreover have "validRefs (removeChildGroup h t c)"
    using assms(1) by (rule validRefs_subset) (simp_all add: children_removeChildGroup)
  ultimately show ?thesis by (simp add: RemoveChildGroup)
next
  case (RemoveChildGroupById t i)
  have "childRel (removeChildGroupById h t i) \<subseteq> childRel h"
    by (rule childRel_subset) (simp_all add: children_removeChildGroupById)
  with assms(2) have "acyclic (childRel (removeChildGroupById h t i))"
    by (rule acyclic_subset)
  moreover have "validRefs (removeChildGroupById h t i)"
    using assms(1) by (rule validRefs_subset) (simp_all add: children_removeChildGroupById)
  ultimately show ?thesis by (simp add: RemoveChildGroupById)
next
  case (ClearChildGroups t)
  have "childRel (clearChildGroups h t) \<subseteq> childRel h"
    by (rule childRel_subset) (simp_all add: children_clearChildGroups)
  with assms(2) have "acyclic (childRel (clearChildGroups h t))"
    by (rule acyclic_subset)
  moreover have "validRefs (clearChildGroups h t)"
    using assms(1) by (rule validRefs_subset) (simp_all add: children_clearChildGroups)
  ultimately show ?thesis by (simp add: ClearChildGroups)
qed

lemma run_preserves:
  "validRefs h \<Longrightarrow> acyclic (childRel h) \<Longrightarrow> runGuarded h ops \<Longrightarrow>
   validRefs (applyOps h ops) \<and> acyclic (childRel (applyOps h ops)) \<and>
   length (applyOps h ops) = length h"
proof (induction ops arbitrary: h)
  case Nil
  then show ?case by (simp add: applyOps_def)
next
  case (Cons op ops)
  from Cons.prems have g: "opGuarded h op" "runGuarded (applyOp h op) ops" by simp_all
  from op_preserves [OF Cons.prems(1,2) g(1)]
  have 1: "validRefs (applyOp h op)" "acyclic (childRel (applyOp h op))"
    "length (applyOp h op) = length h" by simp_all
  from Cons.IH [OF 1(1,2) g(2)] 1(3) show ?case
    by (simp add: applyOps_def)
qed

lemma collect_mem:
  "collect f cs = Some ds \<Longrightarrow> d \<in> set ds \<Longrightarrow>
   d \<in> set cs \<or> (\<exists>c\<in>set cs. \<exists>ds'. f c = Some ds' \<and> d \<in> set ds')"
proof (induction cs arbitrary: ds)
  case Nil
  then show ?case by simp
next
  case (Cons a cs)
  from Cons.prems(1) obtain da rest where a: "f a = Some da" and r: "collect f cs = Some rest"
    and ds: "ds = a # da @ rest"
    by (auto split: option.splits)
  from Cons.prems(2) ds consider "d = a" | "d \<in> set da" | "d \<in> set rest" by auto
  then show ?case
  proof cases
    case 1
    then show ?thesis by simp
  next
    case 2
    with a show ?thesis by auto
  next
    case 3
    from Cons.IH [OF r 3] show ?thesis by auto
  qed
qed

lemma getAllChildGroups_sound:
  "validRefs h \<Longrightarrow> g < length h \<Longrightarrow> getAllChildGroups n h g = Some ds \<Longrightarrow> d \<in> set ds \<Longrightarrow>
   (g, d) \<in> (childRel h)\<^sup>+"
proof (induction n arbitrary: g ds d)
  case 0
  then show ?case by simp
next
  case (Suc n)
  from Suc.prems(3)
  have c: "collect (\<lambda>c. getAllChildGroups n h c) (childGroups (h ! g)) = Some ds"
    by simp
  from collect_mem [OF c Suc.prems(4)]
  consider "d \<in> set (childGroups (h ! g))"
    | x ds' where "x \<in> set (childGroups (h ! g))" "getAllChildGroups n h x = Some ds'" "d \<in> set ds'"
    by blast
  then show ?case
  proof cases
    case 1
    with Suc.prems(2) have "(g, d) \<in> childRel h" by (simp add: childRel_def)
    then show ?thesis by (rule r_into_trancl)
  next
    case 2
    from 2(1) Suc.prems(1,2) have xl: "x < length h" by (simp add: validRefs_def)
    from 2(1) Suc.prems(2) have e: "(g, x) \<in> childRel h" by (simp add: childRel_def)
    from Suc.IH [OF Suc.prems(1) xl 2(2,3)] have "(x, d) \<in> (childRel h)\<^sup>+" .
    with e show ?thesis by (rule trancl_into_trancl2)
  qed
qed

lemma getAllChildGroups_complete:
  "getAllChildGroups n h g = Some ds \<Longrightarrow> (g, d) \<in> (childRel h)\<^sup>+ \<Longrightarrow> d \<in> set ds"
proof (induction n arbitrary: g ds)
  case 0
  then show ?case by simp
next
  case (Suc n)
  from Suc.prems(1)
  have c: "collect (\<lambda>c. getAllChildGroups n h c) (childGroups (h ! g)) = Some ds"
    by simp
  from Suc.prems(2) show ?case
  proof (rule converse_tranclE)
    assume "(g, d) \<in> childRel h"
    then have "d \<in> set (childGroups (h ! g))" by (simp add: childRel_def)
    from collect_Some_member [OF c this] show ?thesis by blast
  next
    fix x assume e: "(g, x) \<in> childRel h" and p: "(x, d) \<in> (childRel h)\<^sup>+"
    from e have "x \<in> set (childGroups (h ! g))" by (simp add: childRel_def)
    from collect_Some_member [OF c this]
    obtain ds' where x: "getAllChildGroups n h x = Some ds'" "set ds' \<subseteq> set ds" by blast
    from Suc.IH [OF x(1) p] x(2) show ?thesis by blast
  qed
qed

lemma getAllChildGroups_mono:
  "getAllChildGroups n h g = Some ds \<Longrightarrow> getAllChildGroups (n + k) h g = Some ds"
proof (induction n arbitrary: g ds)
  case 0
  then show ?case by simp
next
  case (Suc n)
  from Suc.prems
  have c: "collect (\<lambda>c. getAllChildGroups n h c) (childGroups (h ! g)) = Some ds"
    by simp
  have "collect (\<lambda>c. getAllChildGroups (n + k) h c) (childGroups (h ! g)) = Some ds"
    by (rule collect_cong_Some [OF c]) (rule Suc.IH)
  then show ?case by simp
qed

lemma collect_all_return:
  "(\<forall>c\<in>set cs. \<exists>n ds. getAllChildGroups n h c = Some ds) \<Longrightarrow>
   \<exists>n ds. collect (\<lambda>c. getAllChildGroups n h c) cs = Some ds"
proof (induction cs)
  case Nil
  then show ?case by simp
next
  case (Cons a cs)
  from Cons.prems obtain n1 da where a: "getAllChildGroups n1 h a = Some da" by auto
  from Cons.prems Cons.IH obtain n2 rest
    where r: "collect (\<lambda>c. getAllChildGroups n2 h c) cs = Some rest" by auto
  have a': "getAllChildGroups (n1 + n2) h a = Some da"
    using a by (rule getAllChildGroups_mono)
  have "collect (\<lambda>c. getAllChildGroups (n2 + n1) h c) cs = Some rest"
    by (rule collect_cong_Some [OF r]) (rule getAllChildGroups_mono)
  then have r': "collect (\<lambda>c. getAllChildGroups (n1 + n2) h c) cs = Some rest"
    by (simp add: add.commute)
  have "collect (\<lambda>c. getAllChildGroups (n1 + n2) h c) (a # cs) = Some (a # da @ rest)"
    by (simp add: a' r')
  then show ?case by blast
qed

lemma finite_childRel: "finite (childRel h)"
proof -
  have "childRel h \<subseteq> {..<length h} \<times> (\<Union>p \<in> {..<length h}. set (childGroups (h ! p)))"
    by (auto simp: childRel_def)
  moreover have "finite ({..<length h} \<times> (\<Union>p \<in> {..<length h}. set (childGroups (h ! p))))"
    by simp
  ultimately show ?thesis by (rule finite_subset)
qed

lemma getAllChildGroups_returns:
  assumes v: "validRefs h" and a: "acyclic (childRel h)"
  shows "g < length h \<Longrightarrow> \<exists>n ds. getAllChildGroups n h g = Some ds"
proof -
  have wf: "wf ((childRel h)\<inverse>)"
    using finite_childRel a by (rule finite_acyclic_wf_converse)
  show "g < length h \<Longrightarrow> \<exists>n ds. getAllChildGroups n h g = Some ds"
  proof (induction g rule: wf_induct_rule [OF wf])
    case (1 g)
    have "\<forall>c\<in>set (childGroups (h ! g)). \<exists>n ds. getAllChildGroups n h c = Some ds"
    proof
      fix c assume c: "c \<in> set (childGroups (h ! g))"
      with 1(2) have e: "(c, g) \<in> (childRel h)\<inverse>" by (simp add: childRel_def)
      from c 1(2) v have "c < length h" by (simp add: validRefs_def)
      with 1(1) [OF e] show "\<exists>n ds. getAllChildGroups n h c = Some ds" .
    qed
    from collect_all_return [OF this]
    obtain n ds where "collect (\<lambda>c. getAllChildGroups n h c) (childGroups (h ! g)) = Some ds"
      by blast
    then have "getAllChildGroups (Suc n) h g = Some ds" by simp
    then show ?case by blast
  qed
qed

lemma wouldCreateCircularReference_sound:
  assumes "wouldCreateCircularReference n h c t = Some False"
  shows "(c, t) \<notin> (childRel h)\<^sup>*"
proof
  assume r: "(c, t) \<in> (childRel h)\<^sup>*"
  from assms have ne: "gid (h ! c) \<noteq> gid (h ! t)"
    by (auto simp: wouldCreateCircularReference_def split: if_splits)
  then have "c \<noteq> t" by auto
  with r have p: "(c, t) \<in> (childRel h)\<^sup>+" by (auto simp: rtrancl_eq_or_trancl)
  from assms ne obtain ds where ds: "getAllChildGroups n h c = Some ds"
    and no: "\<not> list_ex (\<lambda>d. gid (h ! d) = gid (h ! t)) ds"
    by (auto simp: wouldCreateCircularReference_def split: option.splits)
  from getAllChildGroups_complete [OF ds p] have "t \<in> set ds" .
  with no show False by (auto simp: list_ex_iff)
qed

text \<open>
  Claim C4, as stated: no sequence of tree operations, \<open>addChildGroup(g, g)\<close>
  included, makes a group its own descendant. \<open>addChildGroup\<close> only refuses a child
  whose id is already among the children: on a store with the single group \<open>G\<close>,
  \<open>G.addChildGroup(G)\<close> pushes \<open>G\<close> onto its own child list and makes it its own
  parent, and \<open>G.getAllChildGroups()\<close> then does not return.
\<close>

theorem C4_counterexample:
  "childGroups (applyOps heap_single [AddChildGroup 0 0] ! 0) = [0] \<and>
   parentGroup (applyOps heap_single [AddChildGroup 0 0] ! 0) = Some 0 \<and>
   (0, 0) \<in> childRel (applyOps heap_single [AddChildGroup 0 0]) \<and>
   getAllChildGroups 3 (applyOps heap_single [AddChildGroup 0 0]) 0 = None"
  by (simp add: applyOps_def heap_single_def grp_named_def newGroup_def addChildGroup_def
      childGroupContains_def childRel_def numeral_3_eq_3)

text \<open>
  Claim C4, amended: the tree operations themselves do not check for cycles; the callers
  of \<open>moveGroup\<close> do (\<open>wouldCreateCircularReference\<close>, see
  \<open>wouldCreateCircularReference_sound\<close>). For every store whose child references are
  objects of the store and in which no group is its own descendant, and every sequence
  of \<open>addChildGroup\<close>, \<open>removeChildGroup\<close>, \<open>removeChildGroupById\<close> and
  \<open>clearChildGroups\<close> in which each \<open>addChildGroup(p, c)\<close> is applied with \<open>p\<close>
  neither \<open>c\<close> nor a descendant of \<open>c\<close>: afterwards no group is its own
  descendant, and for every group \<open>g\<close> the call \<open>g.getAllChildGroups()\<close> returns
  and \<open>g\<close> does not appear in its result.
\<close>

theorem C4_acyclic_guarded_runs:
  assumes "validRefs h" and "acyclic (childRel h)" and "runGuarded h ops"
  shows "acyclic (childRel (applyOps h ops)) \<and>
    (\<forall>g<length h.
       (\<exists>n ds. getAllChildGroups n (applyOps h ops) g = Some ds) \<and>
       (\<forall>n ds. getAllChildGroups n (applyOps h ops) g = Some ds \<longrightarrow> g \<notin> set ds))"
proof -
  let ?h = "applyOps h ops"
  from run_preserves [OF assms]
  have v: "validRefs ?h" and a: "acyclic (childRel ?h)" and l: "length ?h = length h"
    by simp_all
  have "(\<exists>n ds. getAllChildGroups n ?h g = Some ds) \<and>
       (\<forall>n ds. getAllChildGroups n ?h g = Some ds \<longrightarrow> g \<notin> set ds)" if g: "g < length h" for g
  proof
    from g l have gl: "g < length ?h" by simp
    from getAllChildGroups_returns [OF v a gl]
    show "\<exists>n ds. getAllChildGroups n ?h g = Some ds" .
    show "\<forall>n ds. getAllChildGroups n ?h g = Some ds \<longrightarrow> g \<notin> set ds"
    proof (intro allI impI notI)
      fix n ds assume "getAllChildGroups n ?h g = Some ds" "g \<in> set ds"
      with v gl have "(g, g) \<in> (childRel ?h)\<^sup>+" by (rule getAllChildGroups_sound)
      with a show False by (simp add: acyclic_def)
    qed
  qed
  with a show ?thesis by blast
qed

theorem C4_witness:
  "validRefs heap_two \<and> acyclic (childRel heap_two) \<and>
   runGuarded heap_two [AddChildGroup 0 1, RemoveChildGroupById 0 ''id-x''] \<and>
   childGroups (applyOps heap_two [AddChildGroup 0 1, RemoveChildGroupById 0 ''id-x''] ! 0) = [1] \<and>
   acyclic (childRel (applyOps heap_two [AddChildGroup 0 1, RemoveChildGroupById 0 ''id-x''])) \<and>
   (\<exists>n ds. getAllChildGroups n
       (applyOps heap_two [AddChildGroup 0 1, RemoveChildGroupById 0 ''id-x'']) 0 = Some ds \<and>
       0 \<notin> set ds)"
proof -
  have c: "childGroups (heap_two ! p) = []" if "p < 2" for p
    using that by (auto simp: heap_two_def grp_named_def newGroup_def less_Suc_eq numeral_2_eq_2)
  have r: "childRel heap_two = {}"
    using c by (auto simp: childRel_def heap_two_def)
  have v: "validRefs heap_two"
    using c by (simp add: validRefs_def heap_two_def)
  have a: "acyclic (childRel heap_two)"
    by (simp add: r acyclic_def)
  have g: "runGuarded heap_two [AddChildGroup 0 1, RemoveChildGroupById 0 ''id-x'']"
    by (simp add: r) (simp add: heap_two_def)
  have e: "childGroups (applyOps heap_two [AddChildGroup 0 1, RemoveChildGroupById 0 ''id-x''] ! 0)
      = [1]"
    by (simp add: applyOps_def heap_two_def grp_named_def newGroup_def addChildGroup_def
        childGroupContains_def removeChildGroupById_def)
  note c4 = C4_acyclic_guarded_runs [OF v a g]
  have "0 < length heap_two" by (simp add: heap_two_def)
  with c4 have "(\<exists>n ds. getAllChildGroups n
       (applyOps heap_two [AddChildGroup 0 1, RemoveChildGroupById 0 ''id-x'']) 0 = Some ds) \<and>
    (\<forall>n ds. getAllChildGroups n
       (applyOps heap_two [AddChildGroup 0 1, RemoveChildGroupById 0 ''id-x'']) 0 = Some ds
       \<longrightarrow> 0 \<notin> set ds)"
    by blast
  then have "\<exists>n ds. getAllChildGroups n
       (applyOps heap_two [AddChildGroup 0 1, RemoveChildGroupById 0 ''id-x'']) 0 = Some ds \<and>
       0 \<notin> set ds"
    by blast
  with v a g e c4 show ?thesis by blast
qed

section \<open>Saving a group tree and loading it again\<close>

text \<open>
  The lemmas below follow the data through \<^verbatim>\<open>StateStorage.saveGroup\<close> and
  \<^verbatim>\<open>StateStorage.loadRootNodes\<close>: the record built for a tree, the entries written
  for the record, the objects allocated by the first pass of the load, and the links set
  by the second pass.
\<close>

lemma traverse_map_Some:
  "traverse f xs = Some ys \<Longrightarrow>
   (\<And>x y. x \<in> set xs \<Longrightarrow> f x = Some y \<Longrightarrow> g x = Some (k y)) \<Longrightarrow>
   traverse g xs = Some (map k ys)"
proof (induction xs arbitrary: ys)
  case Nil
  then show ?case by simp
next
  case (Cons x xs)
  from Cons.prems(1) obtain y ys' where x: "f x = Some y" and r: "traverse f xs = Some ys'"
    and ys: "ys = y # ys'"
    by (auto split: option.splits)
  have gx: "g x = Some (k y)" using Cons.prems(2) [of x y] x by simp
  have "traverse g xs = Some (map k ys')"
    using Cons.IH [OF r] Cons.prems(2) by simp
  with gx ys show ?case by simp
qed

lemma createGroupRecord_recOf:
  "treeOf n h g = Some t \<Longrightarrow> parentsOk n h g \<Longrightarrow>
   createGroupRecord n u2r h g =
     Some (recOf u2r (map_option (\<lambda>p. gid (h ! p)) (parentGroup (h ! g))) t)"
proof (induction n arbitrary: g t)
  case 0
  then show ?case by simp
next
  case (Suc n)
  from Suc.prems(1) obtain ts where ts: "traverse (\<lambda>c. treeOf n h c) (childGroups (h ! g)) = Some ts"
    and t: "t = GNode (gid (h ! g)) (name (h ! g)) (resources (h ! g)) ts"
    by (auto split: option.splits)
  have "traverse (\<lambda>c. createGroupRecord n u2r h c) (childGroups (h ! g))
      = Some (map (recOf u2r (Some (gid (h ! g)))) ts)"
  proof (rule traverse_map_Some [OF ts])
    fix c tc assume c: "c \<in> set (childGroups (h ! g))" and tc: "treeOf n h c = Some tc"
    from Suc.prems(2) c have p: "parentGroup (h ! c) = Some g" "parentsOk n h c" by simp_all
    from Suc.IH [OF tc p(2)] p(1)
    show "createGroupRecord n u2r h c = Some (recOf u2r (Some (gid (h ! g))) tc)" by simp
  qed
  then show ?case by (simp add: t)
qed

lemma treeIds_GNode: "treeIds (GNode i n rs ts) = i # concat (map treeIds ts)"
proof -
  have eq: "map tid (concat (map subtrees ts)) = concat (map treeIds ts)"
    by (induction ts) (simp_all add: treeIds_def)
  have "treeIds (GNode i n rs ts) = map tid (subtrees (GNode i n rs ts))"
    by (rule treeIds_def)
  also have "\<dots> = i # map tid (concat (map subtrees ts))" by simp
  also have "\<dots> = i # concat (map treeIds ts)" by (simp only: eq)
  finally show ?thesis .
qed

lemma fst_flat: "map fst (flat u2r p t) = treeIds t"
proof (induction t arbitrary: p)
  case (GNode i n rs ts)
  have "\<And>q. (\<And>c. c \<in> set ts \<Longrightarrow> map fst (flat u2r q c) = treeIds c) \<Longrightarrow>
      map fst (concat (map (flat u2r q) ts)) = concat (map treeIds ts)"
    by (induction ts) simp_all
  then have "map fst (concat (map (flat u2r (Some i)) ts)) = concat (map treeIds ts)"
    using GNode.IH by blast
  then show ?case by (simp add: treeIds_GNode)
qed

lemma update_absent: "k \<notin> fst ` set al \<Longrightarrow> AList.update k v al = al @ [(k, v)]"
  by (induction al) auto

lemma save_children:
  assumes IH: "\<And>c m. c \<in> set ts \<Longrightarrow> distinct (treeIds c) \<Longrightarrow>
      set (treeIds c) \<inter> fst ` set m = {} \<Longrightarrow>
      saveGroupRecordRecursive m (recOf u2r q c) = m @ flat u2r q c"
  shows "distinct (concat (map treeIds ts)) \<Longrightarrow>
    set (concat (map treeIds ts)) \<inter> fst ` set m = {} \<Longrightarrow>
    fold (\<lambda>childRecord m'. saveGroupRecordRecursive m' childRecord) (map (recOf u2r q) ts) m
      = m @ concat (map (flat u2r q) ts)"
  using IH
proof (induction ts arbitrary: m)
  case Nil
  then show ?case by simp
next
  case (Cons c ts)
  from Cons.prems(1) have d: "distinct (treeIds c)" "distinct (concat (map treeIds ts))"
    "set (treeIds c) \<inter> set (concat (map treeIds ts)) = {}"
    by simp_all
  from Cons.prems(2) have k: "set (treeIds c) \<inter> fst ` set m = {}"
    "set (concat (map treeIds ts)) \<inter> fst ` set m = {}"
    by auto
  have s: "saveGroupRecordRecursive m (recOf u2r q c) = m @ flat u2r q c"
    using Cons.prems(3) [of c m] d(1) k(1) by simp
  have keys: "fst ` set (m @ flat u2r q c) = fst ` set m \<union> set (treeIds c)"
    using fst_flat [of u2r q c] by (metis image_Un set_append set_map)
  have k': "set (concat (map treeIds ts)) \<inter> fst ` set (m @ flat u2r q c) = {}"
    using k(2) d(3) unfolding keys by blast
  have "fold (\<lambda>childRecord m'. saveGroupRecordRecursive m' childRecord) (map (recOf u2r q) ts)
      (m @ flat u2r q c) = (m @ flat u2r q c) @ concat (map (flat u2r q) ts)"
    using Cons.IH [OF d(2) k'] Cons.prems(3) by simp
  then show ?case by (simp add: s)
qed

lemma save_flat:
  "distinct (treeIds t) \<Longrightarrow> set (treeIds t) \<inter> fst ` set m = {} \<Longrightarrow>
   saveGroupRecordRecursive m (recOf u2r p t) = m @ flat u2r p t"
proof (induction t arbitrary: m p)
  case (GNode i n rs ts)
  let ?R = "recOf u2r p (GNode i n rs ts)"
  from GNode.prems have i: "i \<notin> fst ` set m" "i \<notin> set (concat (map treeIds ts))"
    and d: "distinct (concat (map treeIds ts))"
    and k: "set (concat (map treeIds ts)) \<inter> fst ` set m = {}"
    by (auto simp: treeIds_GNode)
  have u: "AList.update i ?R m = m @ [(i, ?R)]"
    using i(1) by (rule update_absent)
  show ?case
  proof (cases "ts = []")
    case True
    then show ?thesis using update_absent [OF i(1)] by simp
  next
    case False
    have k': "set (concat (map treeIds ts)) \<inter> fst ` set (m @ [(i, ?R)]) = {}"
      using k i(2) by auto
    have "fold (\<lambda>childRecord m'. saveGroupRecordRecursive m' childRecord)
        (map (recOf u2r (Some i)) ts) (m @ [(i, ?R)])
        = (m @ [(i, ?R)]) @ concat (map (flat u2r (Some i)) ts)"
      by (rule save_children [OF GNode.IH d k']) simp_all
    then show ?thesis using False by (simp add: update_absent [OF i(1)])
  qed
qed

lemma subtrees_self: "t \<in> set (subtrees t)"
  by (cases t) simp

lemma child_in_subtrees:
  "x \<in> set (subtrees t) \<Longrightarrow> c \<in> set (tchildren x) \<Longrightarrow> c \<in> set (subtrees t)"
proof (induction t)
  case (GNode i n rs ts)
  from GNode.prems(1) consider "x = GNode i n rs ts" | d where "d \<in> set ts" "x \<in> set (subtrees d)"
    by auto
  then show ?case
  proof cases
    case 1
    with GNode.prems(2) have "c \<in> set ts" by simp
    with subtrees_self [of c] show ?thesis by auto
  next
    case 2
    with GNode.IH [OF 2(1) 2(2) GNode.prems(2)] show ?thesis by auto
  qed
qed

lemma kids_GNode: "kids (GNode i n rs ts) = ts @ concat (map kids ts)"
proof -
  have "concat (map tchildren (concat (map subtrees ts))) = concat (map kids ts)"
    by (induction ts) (simp_all add: kids_def)
  then show ?thesis by (simp add: kids_def)
qed

lemma sum_list_single_plus:
  "sum_list (map (\<lambda>c. {#c#} + f c) ts) = mset ts + sum_list (map f ts)"
  by (induction ts) simp_all

lemma mset_subtrees: "mset (subtrees t) = {#t#} + mset (kids t)"
proof (induction t)
  case (GNode i n rs ts)
  have "mset (concat (map subtrees ts)) = sum_list (map (\<lambda>c. mset (subtrees c)) ts)"
    by (induction ts) simp_all
  also have "\<dots> = sum_list (map (\<lambda>c. {#c#} + mset (kids c)) ts)"
    using GNode.IH by (simp cong: map_cong)
  also have "\<dots> = mset ts + sum_list (map (\<lambda>c. mset (kids c)) ts)"
    by (rule sum_list_single_plus)
  also have "sum_list (map (\<lambda>c. mset (kids c)) ts) = mset (concat (map kids ts))"
    by (induction ts) simp_all
  finally show ?case by (simp add: kids_GNode)
qed

lemma distinct_kids:
  assumes "distinct (treeIds t)"
  shows "distinct (map tid (kids t))" and "tid t \<notin> tid ` set (kids t)"
proof -
  have "mset (treeIds t) = mset (tid t # map tid (kids t))"
    unfolding treeIds_def by (simp add: mset_subtrees)
  with assms have "distinct (tid t # map tid (kids t))"
    by (metis mset_eq_imp_distinct_iff)
  then show "distinct (map tid (kids t))" and "tid t \<notin> tid ` set (kids t)" by simp_all
qed

lemma not_self_child: "t \<notin> set (tchildren t)"
proof (induction t)
  case (GNode i n rs ts)
  show ?case
  proof
    assume "GNode i n rs ts \<in> set (tchildren (GNode i n rs ts))"
    then have m: "GNode i n rs ts \<in> set ts" by simp
    from GNode.IH [OF m] m show False by simp
  qed
qed

lemma child_tid_neq:
  assumes "distinct (treeIds t)" "x \<in> set (subtrees t)" "c \<in> set (tchildren x)"
  shows "tid c \<noteq> tid x"
proof
  assume eq: "tid c = tid x"
  have c: "c \<in> set (subtrees t)" by (rule child_in_subtrees [OF assms(2,3)])
  from assms(1) have inj: "inj_on tid (set (subtrees t))"
    by (simp add: treeIds_def distinct_map)
  from inj eq c assms(2) have cx: "c = x" by (auto dest: inj_onD)
  with assms(3) show False using not_self_child [of x] by simp
qed

lemma rid_recOf [simp]: "rid (recOf u2r q x) = tid x"
  by (cases x) simp

lemma rname_recOf [simp]: "rname (recOf u2r q x) = tname x"
  by (cases x) simp

lemma rresources_recOf [simp]: "rresources (recOf u2r q x) = map u2r (tresources x)"
  by (cases x) simp

lemma rchildGroups_recOf:
  "(case rchildGroups (recOf u2r q x) of Some crs \<Rightarrow> crs | None \<Rightarrow> [])
     = map (recOf u2r (Some (tid x))) (tchildren x)"
  by (cases x) simp

lemma createGroupFromRecord_recOf:
  assumes d: "distinct (map fsPath (tresources x))"
    and rt: "\<forall>u \<in> set (tresources x). r2u (u2r u) = Some (conv u) \<and> fsPath (conv u) = fsPath u"
  shows "createGroupFromRecord r2u (recOf u2r q x) = loaded conv x"
proof -
  let ?g0 = "(newGroup (tid x))\<lparr>name := tname x\<rparr>"
  have "fold (\<lambda>resource g. case r2u resource of Some uri \<Rightarrow> addResource g uri | None \<Rightarrow> g)
          (map u2r (tresources x)) ?g0
      = fold (\<lambda>u g. addResource g u) (map conv (tresources x)) ?g0"
    unfolding fold_map using rt by (intro fold_cong) (auto simp: comp_def)
  also have "\<dots> = ?g0\<lparr>resources := resources ?g0 @ map conv (tresources x)\<rparr>"
  proof (rule fold_addResource_distinct)
    have eq: "map (fsPath \<circ> conv) (tresources x) = map fsPath (tresources x)"
      using rt by simp
    show "distinct (map fsPath (resources ?g0 @ map conv (tresources x)))"
      using d by (simp add: newGroup_def eq)
  qed
  finally show ?thesis
    by (simp add: createGroupFromRecord_def loaded_def newGroup_def)
qed

lemma first_pass_gen:
  "distinct (map (rid \<circ> snd) L) \<Longrightarrow> set (map (rid \<circ> snd) L) \<inter> fst ` set al = {} \<Longrightarrow>
   fold (\<lambda>(groupId, groupRecord) (h', allGroups).
             (h' @ [createGroupFromRecord r2u groupRecord],
              AList.update (rid groupRecord) (length h') allGroups)) L (h, al)
     = (h @ map (createGroupFromRecord r2u \<circ> snd) L,
        al @ zip (map (rid \<circ> snd) L) [length h ..< length h + length L])"
proof (induction L arbitrary: h al)
  case Nil
  then show ?case by simp
next
  case (Cons a L)
  obtain k r where a: "a = (k, r)" by (cases a)
  from Cons.prems a have nk: "rid r \<notin> fst ` set al" and d: "distinct (map (rid \<circ> snd) L)"
    and nr: "rid r \<notin> set (map (rid \<circ> snd) L)"
    and dj: "set (map (rid \<circ> snd) L) \<inter> fst ` set al = {}"
    by (auto simp: comp_def)
  have dj': "set (map (rid \<circ> snd) L) \<inter> fst ` set (al @ [(rid r, length h)]) = {}"
    using dj nr by auto
  have up: "[length h ..< Suc (length h + length L)]
      = length h # [Suc (length h) ..< Suc (length h + length L)]"
    by (rule upt_conv_Cons) simp
  show ?case
    using Cons.IH [OF d dj', of "h @ [createGroupFromRecord r2u r]"]
    by (simp add: a update_absent [OF nk] up del: upt_Suc)
qed

lemma attachAll_Nil [simp]: "attachAll [] h = h"
  by (simp add: attachAll_def)

lemma attachAll_Cons [simp]: "attachAll ((p, c) # ps) h = attachAll ps (addChildGroup h p c)"
  by (simp add: attachAll_def)

lemma attachAll_append: "attachAll (ps @ qs) h = attachAll qs (attachAll ps h)"
  by (simp add: attachAll_def)

lemma length_attachAll [simp]: "length (attachAll ps h) = length h"
  by (induction ps arbitrary: h) auto

lemma sameData_attachAll: "sameData (h ! x) (attachAll ps h ! x)"
proof (induction ps arbitrary: h)
  case Nil
  then show ?case by simp
next
  case (Cons a ps)
  obtain p c where a: "a = (p, c)" by (cases a)
  show ?case unfolding a attachAll_Cons
    by (rule sameData_trans [OF sameData_addChildGroup Cons.IH])
qed

lemma attachAll_props:
  assumes "\<And>p c. (p, c) \<in> set ps \<Longrightarrow> p < length h \<and> c < length h \<and> p \<noteq> c"
    and "distinct (map snd ps)"
    and "\<And>p c. (p, c) \<in> set ps \<Longrightarrow> parentGroup (h ! c) = None"
    and "\<And>p c v. (p, c) \<in> set ps \<Longrightarrow> v \<in> set (childGroups (h ! p)) \<Longrightarrow>
           gid (h ! v) \<noteq> gid (h ! c)"
    and "\<And>p c p' c'. (p, c) \<in> set ps \<Longrightarrow> (p', c') \<in> set ps \<Longrightarrow> c \<noteq> c' \<Longrightarrow>
           gid (h ! c) \<noteq> gid (h ! c')"
  shows "(\<forall>r. childGroups (attachAll ps h ! r)
            = childGroups (h ! r) @ map snd (filter (\<lambda>(p, c). p = r) ps)) \<and>
         (\<forall>p c. (p, c) \<in> set ps \<longrightarrow> parentGroup (attachAll ps h ! c) = Some p) \<and>
         (\<forall>r. r \<notin> snd ` set ps \<longrightarrow> parentGroup (attachAll ps h ! r) = parentGroup (h ! r))"
  using assms
proof (induction ps arbitrary: h)
  case Nil
  then show ?case by simp
next
  case (Cons a ps)
  obtain p c where a: "a = (p, c)" by (cases a)
  let ?h1 = "addChildGroup h p c"
  have pc: "p < length h" "c < length h" "p \<noteq> c"
    using Cons.prems(1) [of p c] by (simp_all add: a)
  have cn: "c \<notin> snd ` set ps" and d: "distinct (map snd ps)"
    using Cons.prems(2) by (simp_all add: a)
  have par: "parentGroup (h ! c) = None"
    using Cons.prems(3) [of p c] by (simp add: a)
  have nc: "\<not> childGroupContains h p c"
    using Cons.prems(4) [of p c] by (auto simp: a childGroupContains_def list_ex_iff)
  have h1: "?h1 = h[p := (h ! p)\<lparr>childGroups := childGroups (h ! p) @ [c]\<rparr>,
       c := (h ! c)\<lparr>parentGroup := Some p\<rparr>]"
    by (rule addChildGroup_fresh [OF nc par pc(3) pc(1) pc(2)])
  have ch1: "childGroups (?h1 ! r) = childGroups (h ! r) @ (if r = p then [c] else [])" for r
    unfolding h1 using pc by (simp add: nth_list_update_gen)
  have pa1: "parentGroup (?h1 ! r) = (if r = c then Some p else parentGroup (h ! r))" for r
    unfolding h1 using pc by (simp add: nth_list_update_gen)
  have IH: "(\<forall>r. childGroups (attachAll ps ?h1 ! r)
            = childGroups (?h1 ! r) @ map snd (filter (\<lambda>(p, c). p = r) ps)) \<and>
         (\<forall>p c. (p, c) \<in> set ps \<longrightarrow> parentGroup (attachAll ps ?h1 ! c) = Some p) \<and>
         (\<forall>r. r \<notin> snd ` set ps \<longrightarrow> parentGroup (attachAll ps ?h1 ! r) = parentGroup (?h1 ! r))"
  proof (rule Cons.IH)
    fix p' c' assume m: "(p', c') \<in> set ps"
    show "p' < length ?h1 \<and> c' < length ?h1 \<and> p' \<noteq> c'"
      using Cons.prems(1) [of p' c'] m by simp
    from m cn have ne: "c' \<noteq> c" by (metis imageI snd_conv)
    show "parentGroup (?h1 ! c') = None"
      using Cons.prems(3) [of p' c'] m ne by (simp add: pa1)
  next
    show "distinct (map snd ps)" by (rule d)
  next
    fix p' c' v assume m: "(p', c') \<in> set ps" and v: "v \<in> set (childGroups (?h1 ! p'))"
    from m cn have ne: "c' \<noteq> c" by (metis imageI snd_conv)
    from v consider "v \<in> set (childGroups (h ! p'))" | "v = c"
      by (auto simp: ch1 split: if_splits)
    then show "gid (?h1 ! v) \<noteq> gid (?h1 ! c')"
    proof cases
      case 1
      then show ?thesis using Cons.prems(4) [of p' c' v] m by simp
    next
      case 2
      then show ?thesis using Cons.prems(5) [of p c p' c'] m ne by (simp add: a)
    qed
  next
    fix p1 c1 p2 c2 assume "(p1, c1) \<in> set ps" "(p2, c2) \<in> set ps" "c1 \<noteq> c2"
    then show "gid (?h1 ! c1) \<noteq> gid (?h1 ! c2)"
      using Cons.prems(5) [of p1 c1 p2 c2] by simp
  qed
  have A: "\<forall>r. childGroups (attachAll (a # ps) h ! r)
            = childGroups (h ! r) @ map snd (filter (\<lambda>(p, c). p = r) (a # ps))"
    using IH by (simp add: a ch1)
  have B: "\<forall>p' c'. (p', c') \<in> set (a # ps) \<longrightarrow> parentGroup (attachAll (a # ps) h ! c') = Some p'"
  proof (intro allI impI)
    fix p' c' assume "(p', c') \<in> set (a # ps)"
    then consider "p' = p" "c' = c" | "(p', c') \<in> set ps" by (auto simp: a)
    then show "parentGroup (attachAll (a # ps) h ! c') = Some p'"
    proof cases
      case 1
      then show ?thesis using IH cn by (simp add: a pa1)
    next
      case 2
      then show ?thesis using IH by (simp add: a)
    qed
  qed
  have C: "\<forall>r. r \<notin> snd ` set (a # ps) \<longrightarrow>
      parentGroup (attachAll (a # ps) h ! r) = parentGroup (h ! r)"
    using IH by (simp add: a pa1)
  from A B C show ?case by blast
qed

lemma attachChildren_attachAll:
  "(\<And>cr. cr \<in> set crs \<Longrightarrow> \<exists>r. map_of al (rid cr) = Some r) \<Longrightarrow>
   attachChildren al grp crs h
     = attachAll (map (\<lambda>cr. (grp, the (map_of al (rid cr)))) crs) h"
proof (induction crs arbitrary: h)
  case Nil
  then show ?case by (simp add: attachChildren_def)
next
  case (Cons cr crs)
  from Cons.prems [of cr] obtain r where r: "map_of al (rid cr) = Some r" by auto
  have "attachChildren al grp (cr # crs) h = attachChildren al grp crs (addChildGroup h grp r)"
    by (simp add: attachChildren_def r)
  also have "\<dots> = attachAll (map (\<lambda>cr. (grp, the (map_of al (rid cr)))) crs)
      (addChildGroup h grp r)"
    using Cons.prems by (intro Cons.IH) simp
  finally show ?case by (simp add: r)
qed

lemma second_pass_gen:
  assumes "\<And>k groupRecord. (k, groupRecord) \<in> set L \<Longrightarrow> \<exists>r. map_of al k = Some r"
    and "\<And>k groupRecord cr. (k, groupRecord) \<in> set L \<Longrightarrow> cr \<in> set (childRecs groupRecord) \<Longrightarrow>
           \<exists>r. map_of al (rid cr) = Some r"
  shows "fold (\<lambda>(groupId, groupRecord) (h', groups).
             case map_of al groupId of
               None \<Rightarrow> (h', groups)
             | Some grp \<Rightarrow>
                 (case rchildGroups groupRecord of
                    Some childRecords \<Rightarrow> attachChildren al grp childRecords h'
                  | None \<Rightarrow> h',
                  if truthy (rparentId groupRecord) = None then groups @ [grp] else groups))
       L (h, gs)
     = (attachAll (concat (map (\<lambda>(k, groupRecord).
            map (\<lambda>cr. (the (map_of al k), the (map_of al (rid cr)))) (childRecs groupRecord)) L)) h,
        gs @ map (\<lambda>(k, groupRecord). the (map_of al k))
               (filter (\<lambda>(k, groupRecord). truthy (rparentId groupRecord) = None) L))"
  using assms
proof (induction L arbitrary: h gs)
  case Nil
  then show ?case by simp
next
  case (Cons a L)
  obtain k rec where a: "a = (k, rec)" by (cases a)
  from Cons.prems(1) [of k rec] obtain grp where grp: "map_of al k = Some grp" by (auto simp: a)
  have att: "(case rchildGroups rec of
                    Some childRecords \<Rightarrow> attachChildren al grp childRecords h
                  | None \<Rightarrow> h)
      = attachAll (map (\<lambda>cr. (grp, the (map_of al (rid cr)))) (childRecs rec)) h"
  proof (cases "rchildGroups rec")
    case None
    then show ?thesis by (simp add: childRecs_def)
  next
    case (Some crs)
    have "attachChildren al grp crs h = attachAll (map (\<lambda>cr. (grp, the (map_of al (rid cr)))) crs) h"
    proof (rule attachChildren_attachAll)
      fix cr assume "cr \<in> set crs"
      then show "\<exists>r. map_of al (rid cr) = Some r"
        using Cons.prems(2) [of k rec cr] by (simp add: a childRecs_def Some)
    qed
    then show ?thesis by (simp add: Some childRecs_def)
  qed
  have IH: "\<And>h gs. fold (\<lambda>(groupId, groupRecord) (h', groups).
             case map_of al groupId of
               None \<Rightarrow> (h', groups)
             | Some grp \<Rightarrow>
                 (case rchildGroups groupRecord of
                    Some childRecords \<Rightarrow> attachChildren al grp childRecords h'
                  | None \<Rightarrow> h',
                  if truthy (rparentId groupRecord) = None then groups @ [grp] else groups))
       L (h, gs)
     = (attachAll (concat (map (\<lambda>(k, groupRecord).
            map (\<lambda>cr. (the (map_of al k), the (map_of al (rid cr)))) (childRecs groupRecord)) L)) h,
        gs @ map (\<lambda>(k, groupRecord). the (map_of al k))
               (filter (\<lambda>(k, groupRecord). truthy (rparentId groupRecord) = None) L))"
  proof (rule Cons.IH)
    fix k' rec' assume m: "(k', rec') \<in> set L"
    then show "\<exists>r. map_of al k' = Some r" using Cons.prems(1) [of k' rec'] by simp
    fix cr assume "cr \<in> set (childRecs rec')"
    then show "\<exists>r. map_of al (rid cr) = Some r" using Cons.prems(2) [of k' rec' cr] m by simp
  qed
  show ?case
    by (simp add: a grp att IH attachAll_append del: attachAll_Cons)
qed

lemma zip_ref:
  assumes "distinct (map tid xs)" "x \<in> set xs"
  shows "\<exists>k<length xs. xs ! k = x \<and>
     map_of (zip (map tid xs) [n0..<n0 + length xs]) (tid x) = Some (n0 + k)"
proof -
  from assms(2) obtain k where k: "k < length xs" "xs ! k = x" by (auto simp: in_set_conv_nth)
  have "map_of (zip (map tid xs) [n0..<n0 + length xs]) (map tid xs ! k)
      = Some ([n0..<n0 + length xs] ! k)"
    by (rule map_of_zip_nth) (use assms(1) k in simp_all)
  with k show ?thesis by auto
qed

lemma filter_concat_Nil:
  "(\<And>c. c \<in> set ts \<Longrightarrow> filter P (A c) = []) \<Longrightarrow> filter P (concat (map A ts)) = []"
  by (induction ts) simp_all

lemma filter_concat_single:
  "distinct xs \<Longrightarrow> x \<in> set xs \<Longrightarrow>
   (\<And>y. y \<in> set xs \<Longrightarrow> y \<noteq> x \<Longrightarrow> filter P (B y) = []) \<Longrightarrow>
   filter P (B x) = B x \<Longrightarrow> filter P (concat (map B xs)) = B x"
proof (induction xs)
  case Nil
  then show ?case by simp
next
  case (Cons a xs)
  show ?case
  proof (cases "a = x")
    case True
    with Cons.prems(1) have nx: "x \<notin> set xs" by simp
    have "filter P (concat (map B xs)) = []"
    proof (rule filter_concat_Nil)
      fix c assume c: "c \<in> set xs"
      with nx have "c \<noteq> x" by auto
      with c show "filter P (B c) = []" using Cons.prems(3) [of c] by simp
    qed
    with True Cons.prems(4) show ?thesis by simp
  next
    case False
    with Cons.prems(2) have x: "x \<in> set xs" by simp
    have a: "filter P (B a) = []" using Cons.prems(3) [of a] False by simp
    have "filter P (concat (map B xs)) = B x"
      using Cons.prems(1) x Cons.prems(3) Cons.prems(4) by (intro Cons.IH) simp_all
    with a show ?thesis by simp
  qed
qed

lemma no_root_below:
  "q \<noteq> [] \<Longrightarrow> [] \<notin> set (treeIds c) \<Longrightarrow>
   filter (\<lambda>(k, groupRecord). truthy (rparentId groupRecord) = None) (flat u2r (Some q) c) = []"
proof (induction c arbitrary: q)
  case (GNode i n rs ts)
  from GNode.prems(2) have i: "i \<noteq> []" and ts: "\<And>c. c \<in> set ts \<Longrightarrow> [] \<notin> set (treeIds c)"
    by (auto simp: treeIds_GNode)
  have "filter (\<lambda>(k, groupRecord). truthy (rparentId groupRecord) = None)
      (concat (map (flat u2r (Some i)) ts)) = []"
  proof (rule filter_concat_Nil)
    fix c assume c: "c \<in> set ts"
    show "filter (\<lambda>(k, groupRecord). truthy (rparentId groupRecord) = None)
        (flat u2r (Some i) c) = []"
      by (rule GNode.IH [OF c i ts [OF c]])
  qed
  then show ?case using GNode.prems(1) by simp
qed

lemma childRecs_recOf:
  "childRecs (recOf u2r q x) = map (recOf u2r (Some (tid x))) (tchildren x)"
  by (simp add: childRecs_def rchildGroups_recOf)

lemma filter_parent_block:
  "filter (\<lambda>(p, c). p = r) (map (\<lambda>c. (r', f c)) cs) = (if r' = r then map (\<lambda>c. (r', f c)) cs else [])"
  by (induction cs) simp_all

lemma list_all2_map_eq:
  "list_all2 Q es xs \<Longrightarrow>
   (\<And>e x. e \<in> set es \<Longrightarrow> x \<in> set xs \<Longrightarrow> Q e x \<Longrightarrow> F e = F' x) \<Longrightarrow>
   map F es = map F' xs"
  by (induction rule: list_all2_induct) simp_all

lemma list_all2_in_left:
  "list_all2 Q es xs \<Longrightarrow> e \<in> set es \<Longrightarrow> \<exists>x \<in> set xs. Q e x"
  by (induction rule: list_all2_induct) auto

lemma list_all2_concat_map:
  "(\<And>c. c \<in> set ts \<Longrightarrow> list_all2 Q (A c) (B c)) \<Longrightarrow>
   list_all2 Q (concat (map A ts)) (concat (map B ts))"
  by (induction ts) (simp_all add: list_all2_appendI)

lemma list_all2_filter_both:
  "list_all2 Q es xs \<Longrightarrow> (\<And>e x. Q e x \<Longrightarrow> P e = P' x) \<Longrightarrow>
   list_all2 Q (filter P es) (filter P' xs)"
  by (induction rule: list_all2_induct) auto

lemma list_all2_insort_key:
  "list_all2 Q es xs \<Longrightarrow> Q e x \<Longrightarrow> (\<And>e x. Q e x \<Longrightarrow> f e = f' x) \<Longrightarrow>
   list_all2 Q (insort_key f e es) (insort_key f' x xs)"
proof (induction rule: list_all2_induct)
  case Nil
  then show ?case by simp
next
  case (Cons e' es x' xs)
  have k: "f e = f' x" "f e' = f' x'" using Cons.prems Cons.hyps by simp_all
  show ?case using Cons by (simp add: k)
qed

lemma list_all2_sort_key:
  "list_all2 Q es xs \<Longrightarrow> (\<And>e x. Q e x \<Longrightarrow> f e = f' x) \<Longrightarrow>
   list_all2 Q (sort_key f es) (sort_key f' xs)"
  by (induction rule: list_all2_induct) (simp_all add: list_all2_insort_key)

lemma mset_concat_map:
  "mset xs = mset ys \<Longrightarrow> mset (concat (map g xs)) = mset (concat (map g ys))"
proof -
  assume a: "mset xs = mset ys"
  have "mset (concat (map g zs)) = sum_mset (image_mset (\<lambda>z. mset (g z)) (mset zs))" for zs
    by (induction zs) simp_all
  with a show ?thesis by simp
qed

lemma flat_isEntryOf: "list_all2 (isEntryOf u2r) (flat u2r p t) (subtrees t)"
proof (induction t arbitrary: p)
  case (GNode i n rs ts)
  have "list_all2 (isEntryOf u2r) (concat (map (flat u2r (Some i)) ts)) (concat (map subtrees ts))"
    by (rule list_all2_concat_map) (rule GNode.IH)
  moreover have "isEntryOf u2r (i, recOf u2r p (GNode i n rs ts)) (GNode i n rs ts)"
    unfolding isEntryOf_def by (metis fst_conv snd_conv gtree.sel(1))
  ultimately show ?case by simp
qed

lemma mset_nodeOrder [simp]: "mset (nodeOrder xs) = mset xs"
  by (simp add: nodeOrder_def)

lemma objectEntries_nodeOrder:
  assumes "list_all2 (isEntryOf u2r) es xs"
  shows "list_all2 (isEntryOf u2r) (objectEntries es) (nodeOrder xs)"
proof -
  have k: "fst e = tid x" if "isEntryOf u2r e x" for e x
    using that by (simp add: isEntryOf_def)
  have 1: "list_all2 (isEntryOf u2r) (filter (\<lambda>(k, v). isArrayIndex k) es)
      (filter (\<lambda>x. isArrayIndex (tid x)) xs)"
    by (rule list_all2_filter_both [OF assms]) (simp add: case_prod_beta k)
  have 2: "list_all2 (isEntryOf u2r) (filter (\<lambda>(k, v). \<not> isArrayIndex k) es)
      (filter (\<lambda>x. \<not> isArrayIndex (tid x)) xs)"
    by (rule list_all2_filter_both [OF assms]) (simp add: case_prod_beta k)
  have 3: "list_all2 (isEntryOf u2r)
      (sort_key (\<lambda>(k, v). indexValue k) (filter (\<lambda>(k, v). isArrayIndex k) es))
      (sort_key (\<lambda>x. indexValue (tid x)) (filter (\<lambda>x. isArrayIndex (tid x)) xs))"
    by (rule list_all2_sort_key [OF 1]) (simp add: case_prod_beta k)
  show ?thesis unfolding objectEntries_def nodeOrder_def
    by (rule list_all2_appendI [OF 3 2])
qed

lemma filter_objectEntries_single:
  assumes "filter P obj = [e]"
  shows "filter P (objectEntries obj) = [e]"
proof -
  let ?Q = "\<lambda>(k, v). isArrayIndex k"
  let ?Q' = "\<lambda>(k, v). \<not> isArrayIndex k"
  have a: "filter P (filter ?Q obj) = filter ?Q [e]"
    using arg_cong [OF assms, of "filter ?Q"] by (simp add: conj_commute)
  have b: "filter P (filter ?Q' obj) = filter ?Q' [e]"
    using arg_cong [OF assms, of "filter ?Q'"] by (simp add: conj_commute)
  show ?thesis
    unfolding objectEntries_def filter_append filter_sort a b
    by (cases e) simp
qed

lemma roots_flat:
  assumes ne: "[] \<notin> set (treeIds t)"
  shows "filter (\<lambda>(k, groupRecord). truthy (rparentId groupRecord) = None) (flat u2r None t)
      = [(tid t, recOf u2r None t)]"
proof (cases t)
  case (GNode i n rs ts)
  from ne have i: "i \<noteq> []" and ts: "\<And>c. c \<in> set ts \<Longrightarrow> [] \<notin> set (treeIds c)"
    by (auto simp: GNode treeIds_GNode)
  have "filter (\<lambda>(k, groupRecord). truthy (rparentId groupRecord) = None)
    (concat (map (flat u2r (Some i)) ts)) = []"
    by (rule filter_concat_Nil) (rule no_root_below [OF i ts])
  then show ?thesis by (simp add: GNode)
qed

lemma passes_tree:
  assumes d: "distinct (treeIds t)"
    and cg: "\<And>x q. x \<in> set (subtrees t) \<Longrightarrow>
               createGroupFromRecord r2u (recOf u2r q x) = loaded conv x"
    and rel: "list_all2 (isEntryOf u2r) E xs"
    and perm: "mset xs = mset (subtrees t)"
    and roots: "filter (\<lambda>(k, groupRecord). truthy (rparentId groupRecord) = None) E
               = [(tid t, recOf u2r None t)]"
  shows "\<exists>R h2 al h1.
      loadFirstPass r2u E h0 = (h1, al) \<and>
      loadSecondPass al E h1 = (h2, [R t]) \<and>
      length h0 \<le> R t \<and> parentGroup (h2 ! R t) = None \<and>
      (\<forall>x \<in> set (subtrees t). sameData (loaded conv x) (h2 ! R x) \<and>
          childGroups (h2 ! R x) = map R (tchildren x) \<and>
          (\<forall>c \<in> set (tchildren x). parentGroup (h2 ! R c) = Some (R x)))"
proof -
  let ?n0 = "length h0"
  let ?N = "length xs"
  let ?ks = "concat (map tchildren xs)"
  define al where "al = zip (map tid xs) [?n0 ..< ?n0 + ?N]"
  define h1 where "h1 = h0 @ map (loaded conv) xs"
  define R where "R x = the (map_of al (tid x))" for x :: "Uri gtree"
  define ps where "ps = concat (map (\<lambda>x. map (\<lambda>c. (R x, R c)) (tchildren x)) xs)"
  define h2 where "h2 = attachAll ps h1"
  have sxs: "set xs = set (subtrees t)" using perm by (rule mset_eq_setD)
  have tx: "t \<in> set xs" using subtrees_self by (simp add: sxs)
  have cx: "c \<in> set xs" if "x \<in> set xs" "c \<in> set (tchildren x)" for x c
    using child_in_subtrees [of x t c] that by (simp add: sxs)
  have dx: "distinct (map tid xs)"
  proof -
    have "mset (map tid xs) = mset (treeIds t)" using perm by (simp add: treeIds_def)
    with d show ?thesis by (metis mset_eq_imp_distinct_iff)
  qed
  have dxs: "distinct xs" using dx by (simp add: distinct_map)
  have keys: "map (rid \<circ> snd) E = map tid xs"
    by (rule list_all2_map_eq [OF rel]) (auto simp: isEntryOf_def)
  have lenL: "length E = ?N" using rel by (rule list_all2_lengthD)
  have objs: "map (createGroupFromRecord r2u \<circ> snd) E = map (loaded conv) xs"
    by (rule list_all2_map_eq [OF rel]) (auto simp: isEntryOf_def cg sxs)
  have fp: "loadFirstPass r2u E h0 = (h1, al)"
    unfolding loadFirstPass_def using first_pass_gen [of E "[]" r2u h0] dx
    by (simp add: keys objs lenL al_def h1_def)
  have Rk: "\<exists>k<?N. xs ! k = x \<and> map_of al (tid x) = Some (?n0 + k) \<and> R x = ?n0 + k"
    if "x \<in> set xs" for x
    using zip_ref [OF dx that, of ?n0] by (auto simp: al_def R_def)
  have Rlt: "R x < length h1" and Robj: "h1 ! R x = loaded conv x" and Rge: "?n0 \<le> R x"
    if "x \<in> set xs" for x
    using Rk [OF that] by (auto simp: h1_def nth_append)
  have Rinj: "x = y" if "x \<in> set xs" "y \<in> set xs" "R x = R y" for x y
    using Rk [OF that(1)] Rk [OF that(2)] that(3) by auto
  have entry: "\<exists>x \<in> set xs. k = tid x \<and> (\<exists>q. groupRecord = recOf u2r q x)"
    if "(k, groupRecord) \<in> set E" for k groupRecord
    using list_all2_in_left [OF rel that] by (simp add: isEntryOf_def)
  have found1: "\<exists>r. map_of al k = Some r" if "(k, groupRecord) \<in> set E" for k groupRecord
  proof -
    from entry [OF that] obtain x where "x \<in> set xs" "k = tid x" by blast
    with Rk [of x] show ?thesis by auto
  qed
  have found2: "\<exists>r. map_of al (rid cr) = Some r"
    if "(k, groupRecord) \<in> set E" "cr \<in> set (childRecs groupRecord)" for k groupRecord cr
  proof -
    from entry [OF that(1)] obtain x q where x: "x \<in> set xs" "groupRecord = recOf u2r q x"
      by blast
    with that(2) obtain c where c: "c \<in> set (tchildren x)" "rid cr = tid c"
      by (auto simp: childRecs_recOf)
    from cx [OF x(1) c(1)] Rk [of c] c(2) show ?thesis by auto
  qed
  have Fmap: "map (\<lambda>(k, groupRecord).
            map (\<lambda>cr. (the (map_of al k), the (map_of al (rid cr)))) (childRecs groupRecord)) E
      = map (\<lambda>x. map (\<lambda>c. (R x, R c)) (tchildren x)) xs"
    by (rule list_all2_map_eq [OF rel])
       (auto simp: isEntryOf_def childRecs_recOf R_def comp_def)
  have sp: "loadSecondPass al E h1 = (h2, [R t])"
    unfolding loadSecondPass_def
    by (subst second_pass_gen [OF found1 found2])
       (simp_all add: Fmap roots h2_def ps_def R_def [symmetric])
  have in_ps: "(p, c) \<in> set ps \<longleftrightarrow> (\<exists>x \<in> set xs. \<exists>y \<in> set (tchildren x). p = R x \<and> c = R y)"
    for p c
    by (auto simp: ps_def)
  have snd_ps: "map snd ps = map R ?ks"
    by (simp add: ps_def map_concat comp_def)
  have mk: "mset ?ks = mset (kids t)"
    unfolding kids_def by (rule mset_concat_map [OF perm])
  have kid_sub: "y \<in> set xs" if "y \<in> set ?ks" for y
    using that cx by auto
  have dks: "distinct (map tid ?ks)"
  proof -
    have "mset (map tid ?ks) = mset (map tid (kids t))" using mk by simp
    with distinct_kids(1) [OF d] show ?thesis by (metis mset_eq_imp_distinct_iff)
  qed
  have root_nk: "tid t \<notin> tid ` set ?ks"
    using distinct_kids(2) [OF d] mset_eq_setD [OF mk] by simp
  have dps: "distinct (map snd ps)"
  proof -
    have "distinct ?ks" using dks by (simp add: distinct_map)
    moreover have "inj_on R (set ?ks)"
      by (rule inj_onI) (rule Rinj [OF kid_sub kid_sub])
    ultimately show ?thesis by (simp add: snd_ps distinct_map)
  qed
  have gid1: "gid (h1 ! R x) = tid x" and ch1: "childGroups (h1 ! R x) = []"
    and pa1: "parentGroup (h1 ! R x) = None" if "x \<in> set xs" for x
    using Robj [OF that] by (simp_all add: loaded_def newGroup_def)
  have props: "(\<forall>r. childGroups (attachAll ps h1 ! r)
            = childGroups (h1 ! r) @ map snd (filter (\<lambda>(p, c). p = r) ps)) \<and>
         (\<forall>p c. (p, c) \<in> set ps \<longrightarrow> parentGroup (attachAll ps h1 ! c) = Some p) \<and>
         (\<forall>r. r \<notin> snd ` set ps \<longrightarrow> parentGroup (attachAll ps h1 ! r) = parentGroup (h1 ! r))"
  proof (rule attachAll_props [OF _ dps])
    fix p c assume "(p, c) \<in> set ps"
    then obtain x y where xy: "x \<in> set xs" "y \<in> set (tchildren x)" "p = R x" "c = R y"
      by (auto simp: in_ps)
    have y: "y \<in> set xs" by (rule cx [OF xy(1,2)])
    have "tid y \<noteq> tid x" by (rule child_tid_neq [OF d _ xy(2)]) (use xy(1) sxs in simp)
    then have "R x \<noteq> R y" using Rinj [OF xy(1) y] by auto
    then show "p < length h1 \<and> c < length h1 \<and> p \<noteq> c"
      using Rlt [OF xy(1)] Rlt [OF y] xy(3,4) by simp
    show "parentGroup (h1 ! c) = None" using pa1 [OF y] xy(4) by simp
    fix v assume "v \<in> set (childGroups (h1 ! p))"
    then show "gid (h1 ! v) \<noteq> gid (h1 ! c)" using ch1 [OF xy(1)] xy(3) by simp
  next
    fix p c p' c' assume "(p, c) \<in> set ps" "(p', c') \<in> set ps" and ne: "c \<noteq> c'"
    then obtain x y x' y' where xy: "x \<in> set xs" "y \<in> set (tchildren x)" "c = R y"
       "x' \<in> set xs" "y' \<in> set (tchildren x')" "c' = R y'"
      by (auto simp: in_ps)
    have y: "y \<in> set xs" "y' \<in> set xs"
      by (rule cx [OF xy(1,2)], rule cx [OF xy(4,5)])
    from ne xy have "tid y \<noteq> tid y'" by (auto simp: R_def)
    then show "gid (h1 ! c) \<noteq> gid (h1 ! c')" using gid1 [OF y(1)] gid1 [OF y(2)] xy(3,6) by simp
  qed
  have children: "childGroups (h2 ! R x) = map R (tchildren x)" if x: "x \<in> set xs" for x
  proof -
    have "filter (\<lambda>(p, c). p = R x) ps = map (\<lambda>c. (R x, R c)) (tchildren x)"
      unfolding ps_def
    proof (rule filter_concat_single [OF dxs x])
      fix y assume "y \<in> set xs" "y \<noteq> x"
      then have "R y \<noteq> R x" using Rinj [OF _ x] by auto
      then show "filter (\<lambda>(p, c). p = R x) (map (\<lambda>c. (R y, R c)) (tchildren y)) = []"
        by (simp add: filter_parent_block)
    next
      show "filter (\<lambda>(p, c). p = R x) (map (\<lambda>c. (R x, R c)) (tchildren x))
          = map (\<lambda>c. (R x, R c)) (tchildren x)"
        by (simp add: filter_parent_block)
    qed
    then show ?thesis using props ch1 [OF x] by (simp add: h2_def comp_def)
  qed
  have parents: "parentGroup (h2 ! R c) = Some (R x)"
    if "x \<in> set xs" "c \<in> set (tchildren x)" for x c
  proof -
    have "(R x, R c) \<in> set ps" using that by (auto simp: in_ps)
    then show ?thesis using props by (simp add: h2_def)
  qed
  have rootpar: "parentGroup (h2 ! R t) = None"
  proof -
    have "R t \<notin> snd ` set ps"
    proof
      assume "R t \<in> snd ` set ps"
      then have "R t \<in> set (map snd ps)" by simp
      then obtain y where y: "y \<in> set ?ks" "R t = R y" by (auto simp: snd_ps)
      from Rinj [OF tx kid_sub [OF y(1)] y(2)] y(1) root_nk
      show False by blast
    qed
    then show ?thesis using props pa1 [OF tx] by (simp add: h2_def)
  qed
  have same: "sameData (loaded conv x) (h2 ! R x)" if "x \<in> set xs" for x
    using sameData_attachAll [of h1 "R x" ps] Robj [OF that] by (simp add: h2_def)
  show ?thesis
    using fp sp Rge [OF tx] rootpar same children parents unfolding sxs by blast
qed

lemma traverse_Some_set:
  "traverse f xs = Some ys \<Longrightarrow> y \<in> set ys \<Longrightarrow> \<exists>x \<in> set xs. f x = Some y"
proof (induction xs arbitrary: ys)
  case Nil
  then show ?case by simp
next
  case (Cons x xs)
  from Cons.prems(1) obtain y' ys' where x: "f x = Some y'" and r: "traverse f xs = Some ys'"
    and ys: "ys = y' # ys'"
    by (auto split: option.splits)
  from Cons.prems(2) ys consider "y = y'" | "y \<in> set ys'" by auto
  then show ?case
  proof cases
    case 1
    with x show ?thesis by simp
  next
    case 2
    from Cons.IH [OF r 2] show ?thesis by auto
  qed
qed

lemma traverse_map_all:
  "(\<And>c. c \<in> set ts \<Longrightarrow> f (R c) = Some (k c)) \<Longrightarrow> traverse f (map R ts) = Some (map k ts)"
  by (induction ts) simp_all

lemma map_gtree_sel:
  "map_gtree f x = GNode (tid x) (tname x) (map f (tresources x)) (map (map_gtree f) (tchildren x))"
  by (cases x) simp

lemma treeOf_loaded:
  assumes nodes: "\<And>x. x \<in> set (subtrees t) \<Longrightarrow>
      sameData (loaded conv x) (h2 ! R x) \<and> childGroups (h2 ! R x) = map R (tchildren x)"
  shows "treeOf n h g = Some x \<Longrightarrow> x \<in> set (subtrees t) \<Longrightarrow>
     treeOf n h2 (R x) = Some (map_gtree conv x)"
proof (induction n arbitrary: g x)
  case 0
  then show ?case by simp
next
  case (Suc n)
  from Suc.prems(1) obtain ts where ts: "traverse (\<lambda>c. treeOf n h c) (childGroups (h ! g)) = Some ts"
    and x: "tchildren x = ts"
    by (auto split: option.splits)
  have tr: "traverse (\<lambda>c. treeOf n h2 c) (map R ts) = Some (map (map_gtree conv) ts)"
  proof (rule traverse_map_all)
    fix c assume c: "c \<in> set ts"
    from traverse_Some_set [OF ts c] obtain gc where gc: "treeOf n h gc = Some c" by blast
    have "c \<in> set (subtrees t)" by (rule child_in_subtrees [OF Suc.prems(2)]) (simp add: x c)
    from Suc.IH [OF gc this] show "treeOf n h2 (R c) = Some (map_gtree conv c)" .
  qed
  from nodes [OF Suc.prems(2)] have f: "gid (h2 ! R x) = tid x" "name (h2 ! R x) = tname x"
    "resources (h2 ! R x) = map conv (tresources x)" "childGroups (h2 ! R x) = map R ts"
    by (simp_all add: sameData_def loaded_def newGroup_def x)
  show ?case
    by (subst map_gtree_sel) (simp add: f tr x)
qed

lemma parentsOk_loaded:
  assumes nodes: "\<And>x. x \<in> set (subtrees t) \<Longrightarrow>
      childGroups (h2 ! R x) = map R (tchildren x) \<and>
      (\<forall>c \<in> set (tchildren x). parentGroup (h2 ! R c) = Some (R x))"
  shows "x \<in> set (subtrees t) \<Longrightarrow> parentsOk n h2 (R x)"
proof (induction n arbitrary: x)
  case 0
  then show ?case by simp
next
  case (Suc n)
  have "parentGroup (h2 ! R c) = Some (R x) \<and> parentsOk n h2 (R c)" if c: "c \<in> set (tchildren x)" for c
    using nodes [OF Suc.prems] c Suc.IH [OF child_in_subtrees [OF Suc.prems c]] by simp
  then show ?case using nodes [OF Suc.prems] by simp
qed

lemma resources_in_tree:
  "x \<in> set (subtrees t) \<Longrightarrow> u \<in> set (tresources x) \<Longrightarrow> u \<in> set_gtree t"
proof (induction t)
  case (GNode i n rs ts)
  from GNode.prems(1) consider "x = GNode i n rs ts" | c where "c \<in> set ts" "x \<in> set (subtrees c)"
    by auto
  then show ?case
  proof cases
    case 1
    with GNode.prems(2) show ?thesis by simp
  next
    case 2
    from GNode.IH [OF 2(1) 2(2) GNode.prems(2)] 2(1) show ?thesis by auto
  qed
qed

lemma load_after_migration:
  assumes "getValue (groupstore s) [] = []"
  shows "objectEntries (getValue (groupmap (migrateStorageV1 parse u2r (s\<lparr>groupmap := Some m\<rparr>))) [])
     = objectEntries m"
  using assms by (simp add: migrateStorageV1_def Let_def getValue_def objectEntries_idem)





end
